theory Spec2Isabelle
  imports Main "HOL-Library.Word" "HOL-Library.Signed_Division"
begin

unbundle bit_operations_syntax

section \<open>Identifiers, offsets and page numbers\<close>

text \<open>
  Transaction identifiers, multixact identifiers and multixact member offsets are
  unsigned 64-bit integers in this code base (they are subtracted and cast to
  \<^verbatim>\<open>int64\<close>, printed with \<^verbatim>\<open>PRIu64\<close> and stored in
  \<^verbatim>\<open>pg_atomic_uint64\<close> cells), so they are \<open>64 word\<close>s: \<open>+\<close>, \<open>-\<close> and \<open>*\<close> wrap, \<open>div\<close>
  and \<open>mod\<close> are the unsigned C operators, and \<open>sint\<close> is the cast to \<^verbatim>\<open>int64\<close>.

  Page numbers, segment numbers and slot numbers are \<^verbatim>\<open>int64\<close> and \<^verbatim>\<open>int\<close> values that the
  code only ever divides, compares and increments far away from their limits; they are
  modelled as \<open>int\<close>, with C's truncating \<open>/\<close> and \<open>%\<close> written \<open>sdiv\<close> and \<open>smod\<close>.

  The block size \<^verbatim>\<open>BLCKSZ\<close>, \<^verbatim>\<open>SLRU_PAGES_PER_SEGMENT\<close>, \<^verbatim>\<open>FirstMultiXactId\<close> and the other
  constants of header files are parameters of the functions that use them, under the
  macro's own name.
\<close>

type_synonym TransactionId = "64 word"
type_synonym MultiXactId = "64 word"
type_synonym MultiXactOffset = "64 word"
type_synonym Oid = "32 word"
type_synonym pageno = int
type_synonym segno = int
type_synonym slotno = int

definition InvalidTransactionId :: TransactionId where
  "InvalidTransactionId = 0"

definition InvalidMultiXactId :: MultiXactId where
  "InvalidMultiXactId = 0"

definition TransactionIdIsValid :: "TransactionId \<Rightarrow> bool" where
  "TransactionIdIsValid xid = (xid \<noteq> InvalidTransactionId)"

definition MultiXactIdIsValid :: "MultiXactId \<Rightarrow> bool" where
  "MultiXactIdIsValid multi = (multi \<noteq> InvalidMultiXactId)"

subsection \<open>Circular comparison (multixact.c)\<close>

definition MultiXactIdPrecedes :: "MultiXactId \<Rightarrow> MultiXactId \<Rightarrow> bool" where
  "MultiXactIdPrecedes multi1 multi2 = (let diff = sint (multi1 - multi2) in diff < 0)"

definition MultiXactIdPrecedesOrEquals :: "MultiXactId \<Rightarrow> MultiXactId \<Rightarrow> bool" where
  "MultiXactIdPrecedesOrEquals multi1 multi2 = (let diff = sint (multi1 - multi2) in diff \<le> 0)"

definition MultiXactOffsetPrecedes :: "MultiXactOffset \<Rightarrow> MultiXactOffset \<Rightarrow> bool" where
  "MultiXactOffsetPrecedes offset1 offset2 = (let diff = sint (offset1 - offset2) in diff < 0)"

subsection \<open>Page arithmetic of the multixact logs (multixact.c)\<close>

text \<open>\<^verbatim>\<open>sizeof(MultiXactOffset)\<close> and \<^verbatim>\<open>sizeof(TransactionId)\<close>: both types are 64 bits wide.\<close>

definition sizeof_MultiXactOffset :: nat where
  "sizeof_MultiXactOffset = 8"

definition sizeof_TransactionId :: nat where
  "sizeof_TransactionId = 8"

definition MULTIXACT_OFFSETS_PER_PAGE :: "nat \<Rightarrow> nat" where
  "MULTIXACT_OFFSETS_PER_PAGE BLCKSZ = BLCKSZ div sizeof_MultiXactOffset"

definition MultiXactIdToOffsetPage :: "nat \<Rightarrow> MultiXactId \<Rightarrow> pageno" where
  "MultiXactIdToOffsetPage BLCKSZ multi =
     sint (multi div word_of_nat (MULTIXACT_OFFSETS_PER_PAGE BLCKSZ))"

definition MultiXactIdToOffsetEntry :: "nat \<Rightarrow> MultiXactId \<Rightarrow> int" where
  "MultiXactIdToOffsetEntry BLCKSZ multi =
     uint (multi mod word_of_nat (MULTIXACT_OFFSETS_PER_PAGE BLCKSZ))"

definition MultiXactIdToOffsetSegment :: "nat \<Rightarrow> int \<Rightarrow> MultiXactId \<Rightarrow> segno" where
  "MultiXactIdToOffsetSegment BLCKSZ SLRU_PAGES_PER_SEGMENT multi =
     MultiXactIdToOffsetPage BLCKSZ multi sdiv SLRU_PAGES_PER_SEGMENT"

definition MXACT_MEMBER_BITS_PER_XACT :: nat where
  "MXACT_MEMBER_BITS_PER_XACT = 8"

definition MXACT_MEMBER_FLAGS_PER_BYTE :: nat where
  "MXACT_MEMBER_FLAGS_PER_BYTE = 1"

definition MXACT_MEMBER_XACT_BITMASK :: "64 word" where
  "MXACT_MEMBER_XACT_BITMASK = push_bit MXACT_MEMBER_BITS_PER_XACT 1 - 1"

definition MULTIXACT_FLAGBYTES_PER_GROUP :: nat where
  "MULTIXACT_FLAGBYTES_PER_GROUP = 8"

definition MULTIXACT_MEMBERS_PER_MEMBERGROUP :: nat where
  "MULTIXACT_MEMBERS_PER_MEMBERGROUP = MULTIXACT_FLAGBYTES_PER_GROUP * MXACT_MEMBER_FLAGS_PER_BYTE"

definition MULTIXACT_MEMBERGROUP_SIZE :: nat where
  "MULTIXACT_MEMBERGROUP_SIZE =
     sizeof_TransactionId * MULTIXACT_MEMBERS_PER_MEMBERGROUP + MULTIXACT_FLAGBYTES_PER_GROUP"

definition MULTIXACT_MEMBERGROUPS_PER_PAGE :: "nat \<Rightarrow> nat" where
  "MULTIXACT_MEMBERGROUPS_PER_PAGE BLCKSZ = BLCKSZ div MULTIXACT_MEMBERGROUP_SIZE"

definition MULTIXACT_MEMBERS_PER_PAGE :: "nat \<Rightarrow> nat" where
  "MULTIXACT_MEMBERS_PER_PAGE BLCKSZ =
     MULTIXACT_MEMBERGROUPS_PER_PAGE BLCKSZ * MULTIXACT_MEMBERS_PER_MEMBERGROUP"

definition MXOffsetToMemberPage :: "nat \<Rightarrow> MultiXactOffset \<Rightarrow> pageno" where
  "MXOffsetToMemberPage BLCKSZ offset =
     sint (offset div word_of_nat (MULTIXACT_MEMBERS_PER_PAGE BLCKSZ))"

definition MXOffsetToMemberSegment :: "nat \<Rightarrow> int \<Rightarrow> MultiXactOffset \<Rightarrow> segno" where
  "MXOffsetToMemberSegment BLCKSZ SLRU_PAGES_PER_SEGMENT offset =
     MXOffsetToMemberPage BLCKSZ offset sdiv SLRU_PAGES_PER_SEGMENT"

definition MXOffsetToFlagsOffset :: "nat \<Rightarrow> MultiXactOffset \<Rightarrow> int" where
  "MXOffsetToFlagsOffset BLCKSZ offset =
     (let group = offset div word_of_nat MULTIXACT_MEMBERS_PER_MEMBERGROUP;
          grouponpg = uint (group mod word_of_nat (MULTIXACT_MEMBERGROUPS_PER_PAGE BLCKSZ));
          byteoff = grouponpg * int MULTIXACT_MEMBERGROUP_SIZE
      in byteoff)"

definition MXOffsetToFlagsBitShift :: "MultiXactOffset \<Rightarrow> int" where
  "MXOffsetToFlagsBitShift offset =
     (let member_in_group = uint (offset mod word_of_nat MULTIXACT_MEMBERS_PER_MEMBERGROUP);
          bshift = member_in_group * int MXACT_MEMBER_BITS_PER_XACT
      in bshift)"

definition MXOffsetToMemberOffset :: "nat \<Rightarrow> MultiXactOffset \<Rightarrow> int" where
  "MXOffsetToMemberOffset BLCKSZ offset =
     (let member_in_group = uint (offset mod word_of_nat MULTIXACT_MEMBERS_PER_MEMBERGROUP)
      in MXOffsetToFlagsOffset BLCKSZ offset
         + int MULTIXACT_FLAGBYTES_PER_GROUP
         + member_in_group * int sizeof_TransactionId)"

subsection \<open>Page arithmetic of the commit-timestamp log (commit\_ts.c)\<close>

text \<open>
  \<^verbatim>\<open>SizeOfCommitTimestampEntry\<close> is \<^verbatim>\<open>offsetof(CommitTimestampEntry, nodeid) + sizeof(RepOriginId)\<close>:
  an 8-byte \<^verbatim>\<open>TimestampTz\<close> followed by a 2-byte \<^verbatim>\<open>RepOriginId\<close> (``We need 8+2 bytes per xact'').
\<close>

definition SizeOfCommitTimestampEntry :: nat where
  "SizeOfCommitTimestampEntry = 8 + 2"

definition COMMIT_TS_XACTS_PER_PAGE :: "nat \<Rightarrow> nat" where
  "COMMIT_TS_XACTS_PER_PAGE BLCKSZ = BLCKSZ div SizeOfCommitTimestampEntry"

definition TransactionIdToCTsPage :: "nat \<Rightarrow> TransactionId \<Rightarrow> pageno" where
  "TransactionIdToCTsPage BLCKSZ xid =
     sint (xid div word_of_nat (COMMIT_TS_XACTS_PER_PAGE BLCKSZ))"

definition TransactionIdToCTsEntry :: "nat \<Rightarrow> TransactionId \<Rightarrow> int" where
  "TransactionIdToCTsEntry BLCKSZ xid =
     uint (xid mod word_of_nat (COMMIT_TS_XACTS_PER_PAGE BLCKSZ))"

subsection \<open>Shared multixact state (multixact.c)\<close>

text \<open>
  \<^verbatim>\<open>MultiXactStateData\<close>.  The flexible array \<^verbatim>\<open>perBackendXactIds\<close> holds the two per-backend
  arrays \<^verbatim>\<open>OldestMemberMXactId\<close> and \<^verbatim>\<open>OldestVisibleMXactId\<close>, each of \<^verbatim>\<open>MaxOldestSlot\<close> entries.
\<close>

record MultiXactStateData =
  nextMXact :: MultiXactId
  nextOffset :: MultiXactOffset
  finishedStartup :: bool
  oldestMultiXactId :: MultiXactId
  oldestMultiXactDB :: Oid
  multiVacLimit :: MultiXactId
  OldestMemberMXactId :: "MultiXactId list"
  OldestVisibleMXactId :: "MultiXactId list"

definition ReadNextMultiXactId :: "MultiXactId \<Rightarrow> MultiXactStateData \<Rightarrow> MultiXactId" where
  "ReadNextMultiXactId FirstMultiXactId MultiXactState =
     (let mxid = nextMXact MultiXactState;
          mxid = (if mxid < FirstMultiXactId then FirstMultiXactId else mxid)
      in mxid)"

text \<open>The two out-parameters \<^verbatim>\<open>*oldest\<close> and \<^verbatim>\<open>*next\<close> are returned as a pair.\<close>

definition ReadMultiXactIdRange ::
  "MultiXactId \<Rightarrow> MultiXactStateData \<Rightarrow> MultiXactId \<times> MultiXactId" where
  "ReadMultiXactIdRange FirstMultiXactId MultiXactState =
     (let oldest = oldestMultiXactId MultiXactState;
          next = nextMXact MultiXactState;
          oldest = (if oldest < FirstMultiXactId then FirstMultiXactId else oldest);
          next = (if next < FirstMultiXactId then FirstMultiXactId else next)
      in (oldest, next))"

section \<open>The SLRU page cache (slru.c)\<close>

text \<open>
  Errors raised with \<^verbatim>\<open>ereport(ERROR, ...)\<close> are values; a function that can raise returns
  \<open>Inl\<close> of the error together with the shared state as the raise leaves it.
\<close>

datatype SlruErrorCause =
  SLRU_OPEN_FAILED | SLRU_SEEK_FAILED | SLRU_READ_FAILED
  | SLRU_WRITE_FAILED | SLRU_FSYNC_FAILED | SLRU_CLOSE_FAILED

datatype error =
  SlruIOError SlruErrorCause pageno TransactionId
  | ERROR_cannot_assign_TransactionIds_during_parallel_operation
  | ERROR_cannot_assign_TransactionIds_during_recovery
  | ERROR_cannot_assign_MultiXactIds_during_recovery
  | ERROR_MultiXactId_does_no_longer_exist MultiXactId
  | ERROR_MultiXactId_has_not_been_created_yet MultiXactId
  | ERROR_found_invalid_zero_offset_in_multixact MultiXactId
  | ERROR_cannot_retrieve_commit_timestamp TransactionId
  | ERROR_could_not_get_commit_timestamp_data
  | ERROR_external string

datatype SlruPageStatus =
  SLRU_PAGE_EMPTY | SLRU_PAGE_READ_IN_PROGRESS | SLRU_PAGE_VALID | SLRU_PAGE_WRITE_IN_PROGRESS

text \<open>
  \<^verbatim>\<open>SlruSharedData\<close>, with the arrays as functions of the slot (or bank) number and the
  content of a page buffer of type \<open>'p\<close>.  The LRU counters are C \<^verbatim>\<open>int\<close>s that are
  allowed to wrap; they are 32-bit words, compared as signed numbers.  The locks, the
  per-page LSN groups and the statistics index are left out.
\<close>

record 'p SlruSharedData =
  num_slots :: int
  page_buffer :: "slotno \<Rightarrow> 'p"
  page_status :: "slotno \<Rightarrow> SlruPageStatus"
  page_dirty :: "slotno \<Rightarrow> bool"
  page_number :: "slotno \<Rightarrow> pageno"
  page_lru_count :: "slotno \<Rightarrow> 32 word"
  bank_cur_lru_count :: "int \<Rightarrow> 32 word"
  latest_page_number :: pageno

text \<open>
  \<^verbatim>\<open>SlruCtlData\<close>: the shared area, the number of banks and the page comparison of the
  log.  In place of the path \<^verbatim>\<open>Dir\<close> the model holds the directory itself: the segment
  files in the order a directory scan returns them, each with its segment number (the
  number its file name spells) and its pages.
\<close>

record 'p SlruCtlData =
  shared :: "'p SlruSharedData"
  nbanks :: int
  PagePrecedes :: "pageno \<Rightarrow> pageno \<Rightarrow> bool"
  Dir :: "(segno \<times> 'p list) list"

text \<open>
  What the cache takes from its surroundings: the constant \<^verbatim>\<open>SLRU_PAGES_PER_SEGMENT\<close> of
  slru.h, the global \<^verbatim>\<open>InRecovery\<close>, the page of \<^verbatim>\<open>BLCKSZ\<close> zero bytes, and the system
  calls that fail.  For each segment file, \<open>read_failure\<close> and \<open>write_failure\<close> name the
  step at which reading it, or writing it, fails for a reason other than the state of
  the directory: \<^verbatim>\<open>SLRU_OPEN_FAILED\<close> (an \<^verbatim>\<open>open\<close> that fails with an error other than
  \<^verbatim>\<open>ENOENT\<close>), \<^verbatim>\<open>SLRU_SEEK_FAILED\<close>, \<^verbatim>\<open>SLRU_READ_FAILED\<close>, \<^verbatim>\<open>SLRU_WRITE_FAILED\<close>,
  \<^verbatim>\<open>SLRU_FSYNC_FAILED\<close> or \<^verbatim>\<open>SLRU_CLOSE_FAILED\<close>; \<open>None\<close> when every call succeeds.  A
  cause that the operation has no step for lets it succeed.
\<close>

record 'p SlruEnv =
  SLRU_PAGES_PER_SEGMENT :: int
  InRecovery :: bool
  zero_page :: 'p
  read_failure :: "segno \<Rightarrow> SlruErrorCause option"
  write_failure :: "segno \<Rightarrow> SlruErrorCause option"

definition SLRU_BANK_BITSHIFT :: nat where
  "SLRU_BANK_BITSHIFT = 4"

definition SLRU_BANK_SIZE :: int where
  "SLRU_BANK_SIZE = push_bit SLRU_BANK_BITSHIFT 1"

definition SlotGetBankNumber :: "slotno \<Rightarrow> int" where
  "SlotGetBankNumber slotno = drop_bit SLRU_BANK_BITSHIFT slotno"

text \<open>Signed comparison of two C \<^verbatim>\<open>int\<close>s.\<close>

definition int_less :: "32 word \<Rightarrow> 32 word \<Rightarrow> bool" where
  "int_less a b = (sint a < sint b)"

definition SlruRecentlyUsed :: "'p SlruSharedData \<Rightarrow> slotno \<Rightarrow> 'p SlruSharedData" where
  "SlruRecentlyUsed sh slotno =
     (let bankno = SlotGetBankNumber slotno;
          new_lru_count = bank_cur_lru_count sh bankno
      in if new_lru_count \<noteq> page_lru_count sh slotno
         then sh\<lparr>bank_cur_lru_count := (bank_cur_lru_count sh)(bankno := new_lru_count + 1),
                 page_lru_count := (page_lru_count sh)(slotno := new_lru_count + 1)\<rparr>
         else sh)"

text \<open>
  The model runs one backend at a time.  Releasing and re-acquiring the bank lock lets
  nobody else in, the wait for the buffer lock returns at once, and
  \<^verbatim>\<open>LWLockConditionalAcquire\<close> succeeds: a slot still marked as doing I/O is the leftover of a
  failed I/O, which \<^verbatim>\<open>SimpleLruWaitIO\<close> repairs.
\<close>

definition SimpleLruWaitIO :: "'p SlruCtlData \<Rightarrow> slotno \<Rightarrow> 'p SlruCtlData" where
  "SimpleLruWaitIO ctl slotno =
     (let sh = shared ctl
      in if page_status sh slotno = SLRU_PAGE_READ_IN_PROGRESS
            \<or> page_status sh slotno = SLRU_PAGE_WRITE_IN_PROGRESS
         then (if page_status sh slotno = SLRU_PAGE_READ_IN_PROGRESS
               then ctl\<lparr>shared := sh\<lparr>page_status := (page_status sh)(slotno := SLRU_PAGE_EMPTY)\<rparr>\<rparr>
               else ctl\<lparr>shared := sh\<lparr>page_status := (page_status sh)(slotno := SLRU_PAGE_VALID),
                                      page_dirty := (page_dirty sh)(slotno := True)\<rparr>\<rparr>)
         else ctl)"

subsection \<open>Segment files\<close>

text \<open>
  \<^verbatim>\<open>SlruPhysicalReadPage\<close>.  The \<^verbatim>\<open>open\<close> of a missing segment file fails with \<^verbatim>\<open>ENOENT\<close>,
  which is an error unless \<^verbatim>\<open>InRecovery\<close>, when the page reads as zeroes; any other
  failure of \<^verbatim>\<open>open\<close> is an error.  A page at or beyond the end of the file is a short
  read.  A failing \<^verbatim>\<open>close\<close> comes after the buffer has been filled.  The result is the
  flag the C function returns, with \<^verbatim>\<open>slru_errcause\<close> when it is false.
\<close>

definition SlruPhysicalReadPage ::
  "'p SlruEnv \<Rightarrow> 'p SlruCtlData \<Rightarrow> pageno \<Rightarrow> slotno \<Rightarrow> (SlruErrorCause + unit) \<times> 'p SlruCtlData" where
  "SlruPhysicalReadPage E ctl pageno slotno =
     (let sh = shared ctl;
          segno = pageno sdiv SLRU_PAGES_PER_SEGMENT E;
          rpageno = pageno smod SLRU_PAGES_PER_SEGMENT E
      in case map_of (Dir ctl) segno of
           None \<Rightarrow>
             if \<not> InRecovery E then (Inl SLRU_OPEN_FAILED, ctl)
             else (Inr (), ctl\<lparr>shared := sh\<lparr>page_buffer := (page_buffer sh)(slotno := zero_page E)\<rparr>\<rparr>)
         | Some file \<Rightarrow>
             if read_failure E segno = Some SLRU_OPEN_FAILED then (Inl SLRU_OPEN_FAILED, ctl)
             else if read_failure E segno = Some SLRU_READ_FAILED
                     \<or> \<not> (0 \<le> rpageno \<and> nat rpageno < length file)
             then (Inl SLRU_READ_FAILED, ctl)
             else
               (let ctl = ctl\<lparr>shared := sh\<lparr>page_buffer :=
                                 (page_buffer sh)(slotno := file ! nat rpageno)\<rparr>\<rparr>
                in if read_failure E segno = Some SLRU_CLOSE_FAILED
                   then (Inl SLRU_CLOSE_FAILED, ctl)
                   else (Inr (), ctl)))"

text \<open>
  Writing page \<open>rpageno\<close> of a file: inside the file the page is replaced; beyond its end
  the file grows, the gap reading as zeroes.  A file that does not exist is created, and
  appears at the end of the directory.
\<close>

definition write_file_page :: "'p \<Rightarrow> 'p list \<Rightarrow> nat \<Rightarrow> 'p \<Rightarrow> 'p list" where
  "write_file_page z file rpageno pg =
     (if rpageno < length file then file[rpageno := pg]
      else file @ replicate (rpageno - length file) z @ [pg])"

definition write_dir_page ::
  "'p \<Rightarrow> (segno \<times> 'p list) list \<Rightarrow> segno \<Rightarrow> nat \<Rightarrow> 'p \<Rightarrow> (segno \<times> 'p list) list" where
  "write_dir_page z dir segno rpageno pg =
     (case map_of dir segno of
        None \<Rightarrow> dir @ [(segno, write_file_page z [] rpageno pg)]
      | Some file \<Rightarrow>
          map (\<lambda>(s, f). if s = segno then (s, write_file_page z f rpageno pg) else (s, f)) dir)"

text \<open>\<^verbatim>\<open>open\<close> with \<^verbatim>\<open>O_CREAT\<close>: a segment file that does not exist is created empty.\<close>

definition create_file :: "(segno \<times> 'p list) list \<Rightarrow> segno \<Rightarrow> (segno \<times> 'p list) list" where
  "create_file dir segno =
     (case map_of dir segno of
        None \<Rightarrow> dir @ [(segno, [])]
      | Some file \<Rightarrow> dir)"

text \<open>
  \<^verbatim>\<open>SlruPhysicalWritePage\<close>, step by step: the file is opened and, if it did not exist,
  created; the page is written (a write at a negative offset fails); the file is
  synced, when the sync request cannot be queued; the file is closed.  A step that
  fails ends the call with its cause, and leaves what the steps before it have done: a
  failed write leaves the file that the open has created (with the pages it had: what a
  short write puts into the file is not modelled), and a failed sync or close leaves the
  page written.  The descriptors that \<^verbatim>\<open>SimpleLruWriteAll\<close> keeps open in
  \<^verbatim>\<open>fdata\<close> change which calls open and close a file, not what is written, and are left
  out; so is the WAL flush before the write.
\<close>

definition SlruPhysicalWritePage ::
  "'p SlruEnv \<Rightarrow> 'p SlruCtlData \<Rightarrow> pageno \<Rightarrow> slotno \<Rightarrow> (SlruErrorCause + unit) \<times> 'p SlruCtlData" where
  "SlruPhysicalWritePage E ctl pageno slotno =
     (let sh = shared ctl;
          segno = pageno sdiv SLRU_PAGES_PER_SEGMENT E;
          rpageno = pageno smod SLRU_PAGES_PER_SEGMENT E
      in if write_failure E segno = Some SLRU_OPEN_FAILED then (Inl SLRU_OPEN_FAILED, ctl)
         else
           (let ctl = ctl\<lparr>Dir := create_file (Dir ctl) segno\<rparr>
            in if write_failure E segno = Some SLRU_WRITE_FAILED \<or> rpageno < 0
               then (Inl SLRU_WRITE_FAILED, ctl)
               else
                 (let ctl = ctl\<lparr>Dir := write_dir_page (zero_page E) (Dir ctl) segno (nat rpageno)
                                           (page_buffer sh slotno)\<rparr>
                  in if write_failure E segno = Some SLRU_FSYNC_FAILED
                     then (Inl SLRU_FSYNC_FAILED, ctl)
                     else if write_failure E segno = Some SLRU_CLOSE_FAILED
                     then (Inl SLRU_CLOSE_FAILED, ctl)
                     else (Inr (), ctl))))"

text \<open>
  \<^verbatim>\<open>SlruInternalWritePage\<close>.  The loop that waits while a write is in progress runs at
  most once here, since \<^verbatim>\<open>SimpleLruWaitIO\<close> leaves the slot valid.
\<close>

text \<open>\<^verbatim>\<open>SlruInternalWritePage\<close> reports its failures with \<^verbatim>\<open>InvalidTransactionId\<close>.\<close>

definition SlruInternalWritePage ::
  "'p SlruEnv \<Rightarrow> 'p SlruCtlData \<Rightarrow> slotno \<Rightarrow> (error + unit) \<times> 'p SlruCtlData" where
  "SlruInternalWritePage E ctl slotno =
     (let pageno = page_number (shared ctl) slotno;
          ctl = (if page_status (shared ctl) slotno = SLRU_PAGE_WRITE_IN_PROGRESS
                    \<and> page_number (shared ctl) slotno = pageno
                 then SimpleLruWaitIO ctl slotno else ctl);
          sh = shared ctl
      in if \<not> page_dirty sh slotno
            \<or> page_status sh slotno \<noteq> SLRU_PAGE_VALID
            \<or> page_number sh slotno \<noteq> pageno
         then (Inr (), ctl)
         else
           (let ctl = ctl\<lparr>shared := sh\<lparr>page_status := (page_status sh)(slotno := SLRU_PAGE_WRITE_IN_PROGRESS),
                                         page_dirty := (page_dirty sh)(slotno := False)\<rparr>\<rparr>
            in case SlruPhysicalWritePage E ctl pageno slotno of
                 (Inl cause, ctl) \<Rightarrow>
                   (let sh = shared ctl
                    in (Inl (SlruIOError cause pageno InvalidTransactionId),
                        ctl\<lparr>shared := sh\<lparr>page_dirty := (page_dirty sh)(slotno := True),
                                          page_status := (page_status sh)(slotno := SLRU_PAGE_VALID)\<rparr>\<rparr>))
               | (Inr _, ctl) \<Rightarrow>
                   (let sh = shared ctl
                    in (Inr (),
                        ctl\<lparr>shared := sh\<lparr>page_status := (page_status sh)(slotno := SLRU_PAGE_VALID)\<rparr>\<rparr>))))"

definition SimpleLruWritePage ::
  "'p SlruEnv \<Rightarrow> 'p SlruCtlData \<Rightarrow> slotno \<Rightarrow> (error + unit) \<times> 'p SlruCtlData" where
  "SimpleLruWritePage E ctl slotno = SlruInternalWritePage E ctl slotno"

text \<open>
  \<^verbatim>\<open>SimpleLruDoesPhysicalPageExist\<close>: false when the segment file does not exist; an error
  when it cannot be opened for another reason or its end cannot be found; false when its
  \<^verbatim>\<open>close\<close> fails; otherwise whether the file is long enough to hold the page.
\<close>

definition SimpleLruDoesPhysicalPageExist ::
  "'p SlruEnv \<Rightarrow> 'p SlruCtlData \<Rightarrow> pageno \<Rightarrow> error + bool" where
  "SimpleLruDoesPhysicalPageExist E ctl pageno =
     (let segno = pageno sdiv SLRU_PAGES_PER_SEGMENT E;
          rpageno = pageno smod SLRU_PAGES_PER_SEGMENT E
      in case map_of (Dir ctl) segno of
           None \<Rightarrow> Inr False
         | Some file \<Rightarrow>
             if read_failure E segno = Some SLRU_OPEN_FAILED
             then Inl (SlruIOError SLRU_OPEN_FAILED pageno 0)
             else if read_failure E segno = Some SLRU_SEEK_FAILED
             then Inl (SlruIOError SLRU_SEEK_FAILED pageno 0)
             else
               (let result = (rpageno + 1 \<le> int (length file))
                in if read_failure E segno = Some SLRU_CLOSE_FAILED then Inr False
                   else Inr result))"

subsection \<open>Choosing a slot\<close>

text \<open>The first loop of \<^verbatim>\<open>SlruSelectLRUPage\<close>: is the page already in a slot of the bank?\<close>

fun SlruSelectLRUPage_find ::
  "'p SlruSharedData \<Rightarrow> pageno \<Rightarrow> slotno list \<Rightarrow> slotno option" where
  "SlruSelectLRUPage_find sh pageno [] = None"
| "SlruSelectLRUPage_find sh pageno (slotno # rest) =
     (if page_status sh slotno \<noteq> SLRU_PAGE_EMPTY \<and> page_number sh slotno = pageno
      then Some slotno
      else SlruSelectLRUPage_find sh pageno rest)"

text \<open>The local variables of the second loop.\<close>

record lru_candidates =
  bestvalidslot :: slotno
  best_valid_delta :: "32 word"
  best_valid_page_number :: pageno
  bestinvalidslot :: slotno
  best_invalid_delta :: "32 word"
  best_invalid_page_number :: pageno

definition lru_candidates_init :: lru_candidates where
  "lru_candidates_init =
     \<lparr>bestvalidslot = 0, best_valid_delta = - 1, best_valid_page_number = 0,
      bestinvalidslot = 0, best_invalid_delta = - 1, best_invalid_page_number = 0\<rparr>"

text \<open>
  The second loop: an empty slot ends the search (\<open>Some\<close>); otherwise the loop runs to
  the end (\<open>None\<close>) and leaves the best valid and the best busy candidate.
\<close>

fun SlruSelectLRUPage_scan ::
  "(pageno \<Rightarrow> pageno \<Rightarrow> bool) \<Rightarrow> 32 word \<Rightarrow> slotno list \<Rightarrow> lru_candidates \<Rightarrow> 'p SlruSharedData
     \<Rightarrow> slotno option \<times> lru_candidates \<times> 'p SlruSharedData" where
  "SlruSelectLRUPage_scan precedes cur_count [] b sh = (None, b, sh)"
| "SlruSelectLRUPage_scan precedes cur_count (slotno # rest) b sh =
     (if page_status sh slotno = SLRU_PAGE_EMPTY then (Some slotno, b, sh)
      else
        (let this_delta = cur_count - page_lru_count sh slotno;
             sh = (if int_less this_delta 0
                   then sh\<lparr>page_lru_count := (page_lru_count sh)(slotno := cur_count)\<rparr> else sh);
             this_delta = (if int_less this_delta 0 then 0 else this_delta);
             this_page_number = page_number sh slotno
         in if this_page_number = latest_page_number sh
            then SlruSelectLRUPage_scan precedes cur_count rest b sh
            else if page_status sh slotno = SLRU_PAGE_VALID
            then (if int_less (best_valid_delta b) this_delta
                     \<or> (this_delta = best_valid_delta b
                         \<and> precedes this_page_number (best_valid_page_number b))
                  then SlruSelectLRUPage_scan precedes cur_count rest
                         (b\<lparr>bestvalidslot := slotno, best_valid_delta := this_delta,
                            best_valid_page_number := this_page_number\<rparr>) sh
                  else SlruSelectLRUPage_scan precedes cur_count rest b sh)
            else (if int_less (best_invalid_delta b) this_delta
                     \<or> (this_delta = best_invalid_delta b
                         \<and> precedes this_page_number (best_invalid_page_number b))
                  then SlruSelectLRUPage_scan precedes cur_count rest
                         (b\<lparr>bestinvalidslot := slotno, best_invalid_delta := this_delta,
                            best_invalid_page_number := this_page_number\<rparr>) sh
                  else SlruSelectLRUPage_scan precedes cur_count rest b sh)))"

text \<open>
  \<^verbatim>\<open>SlruSelectLRUPage\<close>.  The outer loop restarts after every wait and every write; a run
  that never leaves it has the value \<open>None\<close>.
\<close>

partial_function (option) SlruSelectLRUPage ::
  "'p SlruEnv \<Rightarrow> 'p SlruCtlData \<Rightarrow> pageno \<Rightarrow> ((error + slotno) \<times> 'p SlruCtlData) option" where
  "SlruSelectLRUPage E ctl pageno =
     (let bankno = pageno smod nbanks ctl;
          bankstart = bankno * SLRU_BANK_SIZE;
          bankend = bankstart + SLRU_BANK_SIZE
      in case SlruSelectLRUPage_find (shared ctl) pageno [bankstart..bankend - 1] of
           Some slotno \<Rightarrow> Some (Inr slotno, ctl)
         | None \<Rightarrow>
             (let cur_count = bank_cur_lru_count (shared ctl) bankno;
                  sh = (shared ctl)\<lparr>bank_cur_lru_count :=
                          (bank_cur_lru_count (shared ctl))(bankno := cur_count + 1)\<rparr>
              in case SlruSelectLRUPage_scan (PagePrecedes ctl) cur_count
                        [bankstart..bankend - 1] lru_candidates_init sh of
                   (Some slotno, b, sh) \<Rightarrow> Some (Inr slotno, ctl\<lparr>shared := sh\<rparr>)
                 | (None, b, sh) \<Rightarrow>
                     if int_less (best_valid_delta b) 0
                     then SlruSelectLRUPage E
                            (SimpleLruWaitIO (ctl\<lparr>shared := sh\<rparr>) (bestinvalidslot b)) pageno
                     else if \<not> page_dirty sh (bestvalidslot b)
                     then Some (Inr (bestvalidslot b), ctl\<lparr>shared := sh\<rparr>)
                     else (case SlruInternalWritePage E (ctl\<lparr>shared := sh\<rparr>) (bestvalidslot b) of
                             (Inl e, ctl) \<Rightarrow> Some (Inl e, ctl)
                           | (Inr _, ctl) \<Rightarrow> SlruSelectLRUPage E ctl pageno)))"


subsection \<open>Zeroing and reading pages\<close>

definition SimpleLruZeroPage ::
  "'p SlruEnv \<Rightarrow> 'p SlruCtlData \<Rightarrow> pageno \<Rightarrow> ((error + slotno) \<times> 'p SlruCtlData) option" where
  "SimpleLruZeroPage E ctl pageno =
     (case SlruSelectLRUPage E ctl pageno of
        None \<Rightarrow> None
      | Some (Inl e, ctl) \<Rightarrow> Some (Inl e, ctl)
      | Some (Inr slotno, ctl) \<Rightarrow>
          (let sh = shared ctl;
               sh = sh\<lparr>page_number := (page_number sh)(slotno := pageno),
                       page_status := (page_status sh)(slotno := SLRU_PAGE_VALID),
                       page_dirty := (page_dirty sh)(slotno := True)\<rparr>;
               sh = SlruRecentlyUsed sh slotno;
               sh = sh\<lparr>page_buffer := (page_buffer sh)(slotno := zero_page E)\<rparr>;
               sh = sh\<lparr>latest_page_number := pageno\<rparr>
           in Some (Inr slotno, ctl\<lparr>shared := sh\<rparr>)))"

partial_function (option) SimpleLruReadPage ::
  "'p SlruEnv \<Rightarrow> 'p SlruCtlData \<Rightarrow> pageno \<Rightarrow> bool \<Rightarrow> TransactionId
     \<Rightarrow> ((error + slotno) \<times> 'p SlruCtlData) option" where
  "SimpleLruReadPage E ctl pageno write_ok xid =
     (case SlruSelectLRUPage E ctl pageno of
        None \<Rightarrow> None
      | Some (Inl e, ctl) \<Rightarrow> Some (Inl e, ctl)
      | Some (Inr slotno, ctl) \<Rightarrow>
          (let sh = shared ctl
           in if page_status sh slotno \<noteq> SLRU_PAGE_EMPTY \<and> page_number sh slotno = pageno
              then (if page_status sh slotno = SLRU_PAGE_READ_IN_PROGRESS
                       \<or> (page_status sh slotno = SLRU_PAGE_WRITE_IN_PROGRESS \<and> \<not> write_ok)
                    then SimpleLruReadPage E (SimpleLruWaitIO ctl slotno) pageno write_ok xid
                    else Some (Inr slotno, ctl\<lparr>shared := SlruRecentlyUsed sh slotno\<rparr>))
              else
                (let ctl = ctl\<lparr>shared := sh\<lparr>page_number := (page_number sh)(slotno := pageno),
                                              page_status := (page_status sh)
                                                 (slotno := SLRU_PAGE_READ_IN_PROGRESS),
                                              page_dirty := (page_dirty sh)(slotno := False)\<rparr>\<rparr>
                 in case SlruPhysicalReadPage E ctl pageno slotno of
                      (Inl cause, ctl) \<Rightarrow>
                        (let sh = shared ctl
                         in Some (Inl (SlruIOError cause pageno xid),
                                  ctl\<lparr>shared := sh\<lparr>page_status :=
                                          (page_status sh)(slotno := SLRU_PAGE_EMPTY)\<rparr>\<rparr>))
                    | (Inr _, ctl) \<Rightarrow>
                        (let sh = shared ctl;
                             sh = sh\<lparr>page_status := (page_status sh)(slotno := SLRU_PAGE_VALID)\<rparr>
                         in Some (Inr slotno, ctl\<lparr>shared := SlruRecentlyUsed sh slotno\<rparr>)))))"

text \<open>The loop of \<^verbatim>\<open>SimpleLruReadPage_ReadOnly\<close> over the slots of the bank.\<close>

fun SimpleLruReadPage_ReadOnly_find ::
  "'p SlruSharedData \<Rightarrow> pageno \<Rightarrow> slotno list \<Rightarrow> slotno option" where
  "SimpleLruReadPage_ReadOnly_find sh pageno [] = None"
| "SimpleLruReadPage_ReadOnly_find sh pageno (slotno # rest) =
     (if page_status sh slotno \<noteq> SLRU_PAGE_EMPTY \<and> page_number sh slotno = pageno
         \<and> page_status sh slotno \<noteq> SLRU_PAGE_READ_IN_PROGRESS
      then Some slotno
      else SimpleLruReadPage_ReadOnly_find sh pageno rest)"

definition SimpleLruReadPage_ReadOnly ::
  "'p SlruEnv \<Rightarrow> 'p SlruCtlData \<Rightarrow> pageno \<Rightarrow> TransactionId
     \<Rightarrow> ((error + slotno) \<times> 'p SlruCtlData) option" where
  "SimpleLruReadPage_ReadOnly E ctl pageno xid =
     (let sh = shared ctl;
          bankno = pageno smod nbanks ctl;
          bankstart = bankno * SLRU_BANK_SIZE;
          bankend = bankstart + SLRU_BANK_SIZE
      in case SimpleLruReadPage_ReadOnly_find sh pageno [bankstart..bankend - 1] of
           Some slotno \<Rightarrow> Some (Inr slotno, ctl\<lparr>shared := SlruRecentlyUsed sh slotno\<rparr>)
         | None \<Rightarrow> SimpleLruReadPage E ctl pageno True xid)"

definition SimpleLruZeroAndWritePage ::
  "'p SlruEnv \<Rightarrow> 'p SlruCtlData \<Rightarrow> pageno \<Rightarrow> ((error + unit) \<times> 'p SlruCtlData) option" where
  "SimpleLruZeroAndWritePage E ctl pageno =
     (case SimpleLruZeroPage E ctl pageno of
        None \<Rightarrow> None
      | Some (Inl e, ctl) \<Rightarrow> Some (Inl e, ctl)
      | Some (Inr slotno, ctl) \<Rightarrow> Some (SimpleLruWritePage E ctl slotno))"

text \<open>\<^verbatim>\<open>SimpleLruWriteAll\<close>: the loop over all slots; the first failed write raises.\<close>

fun SimpleLruWriteAll_loop ::
  "'p SlruEnv \<Rightarrow> 'p SlruCtlData \<Rightarrow> slotno list \<Rightarrow> (error + unit) \<times> 'p SlruCtlData" where
  "SimpleLruWriteAll_loop E ctl [] = (Inr (), ctl)"
| "SimpleLruWriteAll_loop E ctl (slotno # rest) =
     (if page_status (shared ctl) slotno = SLRU_PAGE_EMPTY then SimpleLruWriteAll_loop E ctl rest
      else (case SlruInternalWritePage E ctl slotno of
              (Inl e, ctl) \<Rightarrow> (Inl e, ctl)
            | (Inr _, ctl) \<Rightarrow> SimpleLruWriteAll_loop E ctl rest))"

definition SimpleLruWriteAll ::
  "'p SlruEnv \<Rightarrow> 'p SlruCtlData \<Rightarrow> bool \<Rightarrow> (error + unit) \<times> 'p SlruCtlData" where
  "SimpleLruWriteAll E ctl allow_redirtied =
     SimpleLruWriteAll_loop E ctl [0..num_slots (shared ctl) - 1]"

subsection \<open>Scanning the directory and deleting segments\<close>

text \<open>
  \<^verbatim>\<open>SlruInternalDeleteSegment\<close> unlinks the file of the segment; the result of
  \<^verbatim>\<open>unlink\<close> is ignored by the code, and the model's unlink removes the file.
\<close>

definition SlruInternalDeleteSegment :: "'p SlruCtlData \<Rightarrow> segno \<Rightarrow> 'p SlruCtlData" where
  "SlruInternalDeleteSegment ctl segno = ctl\<lparr>Dir := filter (\<lambda>(s, f). s \<noteq> segno) (Dir ctl)\<rparr>"

definition SlruMayDeleteSegment ::
  "'p SlruEnv \<Rightarrow> 'p SlruCtlData \<Rightarrow> pageno \<Rightarrow> pageno \<Rightarrow> bool" where
  "SlruMayDeleteSegment E ctl segpage cutoffPage =
     (let seg_last_page = segpage + SLRU_PAGES_PER_SEGMENT E - 1
      in PagePrecedes ctl segpage cutoffPage \<and> PagePrecedes ctl seg_last_page cutoffPage)"

text \<open>
  The callbacks of \<^verbatim>\<open>SlruScanDirectory\<close> take the control structure, the first page of
  the segment and their \<^verbatim>\<open>data\<close>, and return their flag with the control structure.
\<close>

definition SlruScanDirCbReportPresence ::
  "'p SlruEnv \<Rightarrow> 'p SlruCtlData \<Rightarrow> pageno \<Rightarrow> pageno \<Rightarrow> bool \<times> 'p SlruCtlData" where
  "SlruScanDirCbReportPresence E ctl segpage cutoffPage =
     (if SlruMayDeleteSegment E ctl segpage cutoffPage then (True, ctl) else (False, ctl))"

definition SlruScanDirCbDeleteCutoff ::
  "'p SlruEnv \<Rightarrow> 'p SlruCtlData \<Rightarrow> pageno \<Rightarrow> pageno \<Rightarrow> bool \<times> 'p SlruCtlData" where
  "SlruScanDirCbDeleteCutoff E ctl segpage cutoffPage =
     (if SlruMayDeleteSegment E ctl segpage cutoffPage
      then (False, SlruInternalDeleteSegment ctl (segpage sdiv SLRU_PAGES_PER_SEGMENT E))
      else (False, ctl))"

definition SlruScanDirCbDeleteAll ::
  "'p SlruEnv \<Rightarrow> 'p SlruCtlData \<Rightarrow> pageno \<Rightarrow> bool \<times> 'p SlruCtlData" where
  "SlruScanDirCbDeleteAll E ctl segpage =
     (False, SlruInternalDeleteSegment ctl (segpage sdiv SLRU_PAGES_PER_SEGMENT E))"

text \<open>
  \<^verbatim>\<open>SlruScanDirectory\<close> calls the callback on the segment files that the directory holds
  when the scan starts, in their order, until a callback returns true.
\<close>

fun SlruScanDirectory_loop ::
  "'p SlruEnv \<Rightarrow> ('p SlruCtlData \<Rightarrow> pageno \<Rightarrow> bool \<times> 'p SlruCtlData) \<Rightarrow> 'p SlruCtlData
     \<Rightarrow> segno list \<Rightarrow> bool \<times> 'p SlruCtlData" where
  "SlruScanDirectory_loop E callback ctl [] = (False, ctl)"
| "SlruScanDirectory_loop E callback ctl (segno # rest) =
     (let segpage = segno * SLRU_PAGES_PER_SEGMENT E
      in case callback ctl segpage of
           (True, ctl) \<Rightarrow> (True, ctl)
         | (False, ctl) \<Rightarrow> SlruScanDirectory_loop E callback ctl rest)"

definition SlruScanDirectory ::
  "'p SlruEnv \<Rightarrow> 'p SlruCtlData \<Rightarrow> ('p SlruCtlData \<Rightarrow> pageno \<Rightarrow> bool \<times> 'p SlruCtlData)
     \<Rightarrow> bool \<times> 'p SlruCtlData" where
  "SlruScanDirectory E ctl callback = SlruScanDirectory_loop E callback ctl (map fst (Dir ctl))"

subsection \<open>Truncation\<close>

text \<open>
  The loop of \<^verbatim>\<open>SimpleLruTruncate\<close> over the slots: clean pages before the cutoff are
  dropped; the first page that is dirty or doing I/O stops the loop (\<open>Some\<close>).
\<close>

fun SimpleLruTruncate_scan ::
  "'p SlruCtlData \<Rightarrow> pageno \<Rightarrow> slotno list \<Rightarrow> slotno option \<times> 'p SlruCtlData" where
  "SimpleLruTruncate_scan ctl cutoffPage [] = (None, ctl)"
| "SimpleLruTruncate_scan ctl cutoffPage (slotno # rest) =
     (let sh = shared ctl
      in if page_status sh slotno = SLRU_PAGE_EMPTY
         then SimpleLruTruncate_scan ctl cutoffPage rest
         else if \<not> PagePrecedes ctl (page_number sh slotno) cutoffPage
         then SimpleLruTruncate_scan ctl cutoffPage rest
         else if page_status sh slotno = SLRU_PAGE_VALID \<and> \<not> page_dirty sh slotno
         then SimpleLruTruncate_scan
                (ctl\<lparr>shared := sh\<lparr>page_status := (page_status sh)(slotno := SLRU_PAGE_EMPTY)\<rparr>\<rparr>)
                cutoffPage rest
         else (Some slotno, ctl))"

text \<open>
  \<^verbatim>\<open>SimpleLruTruncate\<close> returns the messages it writes to the server log.  The jump back
  to \<^verbatim>\<open>restart\<close> is the recursive call.
\<close>

definition LOG_apparent_wraparound :: string where
  "LOG_apparent_wraparound = ''could not truncate directory: apparent wraparound''"

partial_function (option) SimpleLruTruncate ::
  "'p SlruEnv \<Rightarrow> 'p SlruCtlData \<Rightarrow> pageno \<Rightarrow> ((error + string list) \<times> 'p SlruCtlData) option" where
  "SimpleLruTruncate E ctl cutoffPage =
     (if PagePrecedes ctl (latest_page_number (shared ctl)) cutoffPage
      then Some (Inr [LOG_apparent_wraparound], ctl)
      else (case SimpleLruTruncate_scan ctl cutoffPage [0..num_slots (shared ctl) - 1] of
              (Some slotno, ctl) \<Rightarrow>
                if page_status (shared ctl) slotno = SLRU_PAGE_VALID
                then (case SlruInternalWritePage E ctl slotno of
                        (Inl e, ctl) \<Rightarrow> Some (Inl e, ctl)
                      | (Inr _, ctl) \<Rightarrow> SimpleLruTruncate E ctl cutoffPage)
                else SimpleLruTruncate E (SimpleLruWaitIO ctl slotno) cutoffPage
            | (None, ctl) \<Rightarrow>
                Some (Inr [], snd (SlruScanDirectory E ctl
                                     (\<lambda>ctl segpage. SlruScanDirCbDeleteCutoff E ctl segpage cutoffPage)))))"

text \<open>The loop of \<^verbatim>\<open>SlruDeleteSegment\<close> over the slots, with its flag \<^verbatim>\<open>did_write\<close>.\<close>

fun SlruDeleteSegment_scan ::
  "'p SlruEnv \<Rightarrow> 'p SlruCtlData \<Rightarrow> segno \<Rightarrow> slotno list \<Rightarrow> bool \<Rightarrow> (error + bool) \<times> 'p SlruCtlData" where
  "SlruDeleteSegment_scan E ctl segno [] did_write = (Inr did_write, ctl)"
| "SlruDeleteSegment_scan E ctl segno (slotno # rest) did_write =
     (let sh = shared ctl
      in if page_status sh slotno = SLRU_PAGE_EMPTY
         then SlruDeleteSegment_scan E ctl segno rest did_write
         else if page_number sh slotno sdiv SLRU_PAGES_PER_SEGMENT E \<noteq> segno
         then SlruDeleteSegment_scan E ctl segno rest did_write
         else if page_status sh slotno = SLRU_PAGE_VALID \<and> \<not> page_dirty sh slotno
         then SlruDeleteSegment_scan E
                (ctl\<lparr>shared := sh\<lparr>page_status := (page_status sh)(slotno := SLRU_PAGE_EMPTY)\<rparr>\<rparr>)
                segno rest did_write
         else if page_status sh slotno = SLRU_PAGE_VALID
         then (case SlruInternalWritePage E ctl slotno of
                 (Inl e, ctl) \<Rightarrow> (Inl e, ctl)
               | (Inr _, ctl) \<Rightarrow> SlruDeleteSegment_scan E ctl segno rest True)
         else SlruDeleteSegment_scan E (SimpleLruWaitIO ctl slotno) segno rest True)"

partial_function (option) SlruDeleteSegment ::
  "'p SlruEnv \<Rightarrow> 'p SlruCtlData \<Rightarrow> segno \<Rightarrow> ((error + unit) \<times> 'p SlruCtlData) option" where
  "SlruDeleteSegment E ctl segno =
     (case SlruDeleteSegment_scan E ctl segno [0..num_slots (shared ctl) - 1] False of
        (Inl e, ctl) \<Rightarrow> Some (Inl e, ctl)
      | (Inr did_write, ctl) \<Rightarrow>
          if did_write then SlruDeleteSegment E ctl segno
          else Some (Inr (), SlruInternalDeleteSegment ctl segno))"

section \<open>Properties of the page cache to be verified\<close>

text \<open>
  What a call of \<^verbatim>\<open>SlruSelectLRUPage\<close> for \<open>pageno\<close> may return in the state it leaves: a
  slot of the bank of \<open>pageno\<close> that already holds \<open>pageno\<close> (in a state other than
  empty), or is empty, or holds a valid, clean page that is not the latest page.
\<close>

definition selected_slot_ok :: "'p SlruCtlData \<Rightarrow> pageno \<Rightarrow> slotno \<Rightarrow> bool" where
  "selected_slot_ok ctl pageno slotno =
     (let sh = shared ctl;
          bankstart = (pageno smod nbanks ctl) * SLRU_BANK_SIZE
      in bankstart \<le> slotno \<and> slotno < bankstart + SLRU_BANK_SIZE
         \<and> ((page_status sh slotno \<noteq> SLRU_PAGE_EMPTY \<and> page_number sh slotno = pageno)
            \<or> page_status sh slotno = SLRU_PAGE_EMPTY
            \<or> (page_status sh slotno = SLRU_PAGE_VALID \<and> \<not> page_dirty sh slotno
                \<and> page_number sh slotno \<noteq> latest_page_number sh)))"

text \<open>A sequence of \<^verbatim>\<open>SimpleLruReadPage\<close> calls of one backend; a call that raises leaves
  its state to the next call.\<close>

fun read_pages ::
  "'p SlruEnv \<Rightarrow> 'p SlruCtlData \<Rightarrow> (pageno \<times> bool \<times> TransactionId) list \<Rightarrow> 'p SlruCtlData option" where
  "read_pages E ctl [] = Some ctl"
| "read_pages E ctl ((pageno, write_ok, xid) # calls) =
     (case SimpleLruReadPage E ctl pageno write_ok xid of
        None \<Rightarrow> None
      | Some (r, ctl) \<Rightarrow> read_pages E ctl calls)"

text \<open>
  An example state: one bank of 16 valid slots holding the pages 0 to 15, all equally
  recently used and all clean but slot 1, with page 0 the latest page, over two full
  segment files; and 17 reads of further pages.
\<close>

definition example_env :: "nat SlruEnv" where
  "example_env = \<lparr>SLRU_PAGES_PER_SEGMENT = 32, InRecovery = False, zero_page = 0,
                   read_failure = (\<lambda>segno. None), write_failure = (\<lambda>segno. None)\<rparr>"

definition example_full_bank :: "nat SlruCtlData" where
  "example_full_bank =
     \<lparr>shared = \<lparr>num_slots = 16, page_buffer = (\<lambda>slotno. 7),
                page_status = (\<lambda>slotno. SLRU_PAGE_VALID), page_dirty = (\<lambda>slotno. slotno = 1),
                page_number = (\<lambda>slotno. slotno), page_lru_count = (\<lambda>slotno. 0),
                bank_cur_lru_count = (\<lambda>bankno. 0), latest_page_number = 0\<rparr>,
      nbanks = 1, PagePrecedes = (\<lambda>page1 page2. page1 < page2),
      Dir = [(0, replicate 32 7), (1, replicate 32 7)]\<rparr>"

definition example_reads :: "(pageno \<times> bool \<times> TransactionId) list" where
  "example_reads = [(17, True, 0), (18, True, 0), (19, True, 0), (20, True, 0), (21, True, 0), (22, True, 0), (23, True, 0), (24, True, 0), (25, True, 0), (26, True, 0), (27, True, 0), (28, True, 0), (29, True, 0), (30, True, 0), (31, True, 0), (32, True, 0), (33, True, 0)]"

section \<open>Invariants and measures of the page cache\<close>

text \<open>The slots of the bank of a page.\<close>

definition bank_slots :: "'p SlruCtlData \<Rightarrow> pageno \<Rightarrow> slotno set" where
  "bank_slots ctl pageno =
     (let bankstart = (pageno smod nbanks ctl) * SLRU_BANK_SIZE
      in {s. bankstart \<le> s \<and> s < bankstart + SLRU_BANK_SIZE})"

text \<open>
  The invariant of the cache: no page is held by two slots of one bank.  It holds when
  all slots are empty, as \<^verbatim>\<open>SimpleLruInit\<close> leaves them.
\<close>

definition pages_distinct :: "'p SlruCtlData \<Rightarrow> bool" where
  "pages_distinct ctl =
     (\<forall>s t. s \<noteq> t \<and> SlotGetBankNumber s = SlotGetBankNumber t
            \<and> page_status (shared ctl) s \<noteq> SLRU_PAGE_EMPTY
            \<and> page_status (shared ctl) t \<noteq> SLRU_PAGE_EMPTY
          \<longrightarrow> page_number (shared ctl) s \<noteq> page_number (shared ctl) t)"

text \<open>
  What the victim search has to get out of its way before it can return: slots doing
  I/O, which it waits for, and valid dirty slots, which it writes.
\<close>

definition io_in_progress :: "'p SlruCtlData \<Rightarrow> slotno \<Rightarrow> bool" where
  "io_in_progress ctl s =
     (page_status (shared ctl) s = SLRU_PAGE_READ_IN_PROGRESS
      \<or> page_status (shared ctl) s = SLRU_PAGE_WRITE_IN_PROGRESS)"

definition needs_write :: "'p SlruCtlData \<Rightarrow> slotno \<Rightarrow> bool" where
  "needs_write ctl s = (page_status (shared ctl) s = SLRU_PAGE_VALID \<and> page_dirty (shared ctl) s)"

definition search_measure :: "'p SlruCtlData \<Rightarrow> slotno set \<Rightarrow> nat" where
  "search_measure ctl B =
     2 * card {s \<in> B. io_in_progress ctl s} + card {s \<in> B. needs_write ctl s}"

text \<open>
  The candidates of the second loop.  A valid candidate, once there is one
  (\<open>best_valid_delta\<close> is not negative), is a slot of the scanned range that is valid and
  does not hold the latest page; a busy candidate is a slot of the range doing I/O; and
  the loop misses no candidate.
\<close>

definition valid_candidate :: "slotno set \<Rightarrow> 'p SlruSharedData \<Rightarrow> lru_candidates \<Rightarrow> bool" where
  "valid_candidate S sh b =
     (int_less (best_valid_delta b) 0
      \<or> (bestvalidslot b \<in> S \<and> page_status sh (bestvalidslot b) = SLRU_PAGE_VALID
         \<and> page_number sh (bestvalidslot b) \<noteq> latest_page_number sh))"

definition busy_candidate :: "slotno set \<Rightarrow> 'p SlruSharedData \<Rightarrow> lru_candidates \<Rightarrow> bool" where
  "busy_candidate S sh b =
     (int_less (best_invalid_delta b) 0
      \<or> (bestinvalidslot b \<in> S
         \<and> (page_status sh (bestinvalidslot b) = SLRU_PAGE_READ_IN_PROGRESS
            \<or> page_status sh (bestinvalidslot b) = SLRU_PAGE_WRITE_IN_PROGRESS)))"

definition candidates_complete :: "slotno set \<Rightarrow> 'p SlruSharedData \<Rightarrow> lru_candidates \<Rightarrow> bool" where
  "candidates_complete S sh b =
     (\<forall>s \<in> S. page_status sh s \<noteq> SLRU_PAGE_EMPTY
         \<and> (page_number sh s \<noteq> latest_page_number sh \<longrightarrow>
              (if page_status sh s = SLRU_PAGE_VALID
               then \<not> int_less (best_valid_delta b) 0
               else \<not> int_less (best_invalid_delta b) 0)))"

text \<open>
  What a victim search leaves untouched: no step of it changes a page number, the latest
  page or a buffer, and the only changes of a status are those of \<^verbatim>\<open>SimpleLruWaitIO\<close>.
\<close>

definition slru_frame :: "'p SlruCtlData \<Rightarrow> 'p SlruCtlData \<Rightarrow> bool" where
  "slru_frame ctl ctl' =
     (nbanks ctl' = nbanks ctl \<and> PagePrecedes ctl' = PagePrecedes ctl
      \<and> num_slots (shared ctl') = num_slots (shared ctl)
      \<and> page_number (shared ctl') = page_number (shared ctl)
      \<and> latest_page_number (shared ctl') = latest_page_number (shared ctl)
      \<and> page_buffer (shared ctl') = page_buffer (shared ctl)
      \<and> (\<forall>t. page_status (shared ctl') t = page_status (shared ctl) t
             \<or> (page_status (shared ctl) t = SLRU_PAGE_READ_IN_PROGRESS
                 \<and> page_status (shared ctl') t = SLRU_PAGE_EMPTY)
             \<or> (page_status (shared ctl) t = SLRU_PAGE_WRITE_IN_PROGRESS
                 \<and> page_status (shared ctl') t = SLRU_PAGE_VALID)))"

text \<open>The latest page, when a valid slot holds it, stays valid in that slot.\<close>

definition keeps_latest :: "'p SlruCtlData \<Rightarrow> 'p SlruCtlData \<Rightarrow> bool" where
  "keeps_latest ctl ctl' =
     (latest_page_number (shared ctl') = latest_page_number (shared ctl)
      \<and> (\<forall>t. page_status (shared ctl) t = SLRU_PAGE_VALID
               \<and> page_number (shared ctl) t = latest_page_number (shared ctl)
             \<longrightarrow> page_status (shared ctl') t = SLRU_PAGE_VALID
                 \<and> page_number (shared ctl') t = latest_page_number (shared ctl)))"

text \<open>
  The only error of the victim search is a failed write of a dirty page: the error names
  the page and \<^verbatim>\<open>InvalidTransactionId\<close>, and either the environment makes a step of the
  write fail or the page lies at a negative offset of its file.
\<close>

definition write_failed :: "'p SlruEnv \<Rightarrow> error \<Rightarrow> bool" where
  "write_failed E e =
     (case e of
        SlruIOError cause pageno xid \<Rightarrow>
          xid = InvalidTransactionId
          \<and> (write_failure E (pageno sdiv SLRU_PAGES_PER_SEGMENT E) = Some cause
             \<or> (cause = SLRU_WRITE_FAILED \<and> pageno smod SLRU_PAGES_PER_SEGMENT E < 0))
      | _ \<Rightarrow> False)"

text \<open>No slot of the bank of \<open>pageno\<close> holds \<open>pageno\<close>.\<close>

definition page_absent :: "'p SlruCtlData \<Rightarrow> pageno \<Rightarrow> bool" where
  "page_absent ctl pageno =
     (\<forall>t \<in> bank_slots ctl pageno.
        page_status (shared ctl) t = SLRU_PAGE_EMPTY \<or> page_number (shared ctl) t \<noteq> pageno)"

text \<open>What a finished victim search has done.\<close>

definition search_result ::
  "'p SlruEnv \<Rightarrow> 'p SlruCtlData \<Rightarrow> pageno \<Rightarrow> (error + slotno) \<times> 'p SlruCtlData \<Rightarrow> bool" where
  "search_result E ctl pageno y =
     (slru_frame ctl (snd y)
      \<and> (case fst y of
           Inl e \<Rightarrow> write_failed E e
         | Inr slotno \<Rightarrow>
             selected_slot_ok (snd y) pageno slotno
             \<and> ((page_status (shared (snd y)) slotno \<noteq> SLRU_PAGE_EMPTY
                   \<and> page_number (shared (snd y)) slotno = pageno)
                \<or> page_absent (snd y) pageno)))"

text \<open>What a step of the truncation loop leaves untouched: nothing is deleted.\<close>

definition dir_grows :: "'p SlruCtlData \<Rightarrow> 'p SlruCtlData \<Rightarrow> bool" where
  "dir_grows ctl ctl' =
     (nbanks ctl' = nbanks ctl \<and> PagePrecedes ctl' = PagePrecedes ctl
      \<and> num_slots (shared ctl') = num_slots (shared ctl)
      \<and> latest_page_number (shared ctl') = latest_page_number (shared ctl)
      \<and> fst ` set (Dir ctl) \<subseteq> fst ` set (Dir ctl'))"

text \<open>
  The outcome of a truncation: a refused truncation logs its message and changes
  nothing; otherwise only deletable segments are missing afterwards, none is missing
  after an error, and after a completed truncation no deletable segment is left.
\<close>

definition truncate_outcome ::
  "'p SlruEnv \<Rightarrow> 'p SlruCtlData \<Rightarrow> pageno \<Rightarrow> (error + string list) \<times> 'p SlruCtlData \<Rightarrow> bool" where
  "truncate_outcome E ctl cutoffPage y =
     (PagePrecedes (snd y) = PagePrecedes ctl
      \<and> (\<forall>segno. segno \<in> fst ` set (Dir ctl) \<and> segno \<notin> fst ` set (Dir (snd y))
            \<longrightarrow> SlruMayDeleteSegment E ctl (segno * SLRU_PAGES_PER_SEGMENT E) cutoffPage)
      \<and> (\<forall>e. fst y = Inl e \<longrightarrow> fst ` set (Dir ctl) \<subseteq> fst ` set (Dir (snd y)))
      \<and> (fst y = Inr [] \<longrightarrow>
           (\<forall>segno. SlruMayDeleteSegment E ctl (segno * SLRU_PAGES_PER_SEGMENT E) cutoffPage
              \<longrightarrow> segno \<notin> fst ` set (Dir (snd y))))
      \<and> (\<forall>msgs. fst y = Inr msgs \<longrightarrow>
            (if PagePrecedes ctl (latest_page_number (shared ctl)) cutoffPage
             then msgs = [LOG_apparent_wraparound] \<and> snd y = ctl else msgs = [])))"

text \<open>
  The page comparisons of the two multixact logs (multixact.c).  The cast of a page number
  to \<^verbatim>\<open>MultiXactId\<close> or \<^verbatim>\<open>MultiXactOffset\<close> is \<open>word_of_int\<close>.
\<close>

definition MultiXactOffsetPagePrecedes :: "nat \<Rightarrow> MultiXactId \<Rightarrow> pageno \<Rightarrow> pageno \<Rightarrow> bool" where
  "MultiXactOffsetPagePrecedes BLCKSZ FirstMultiXactId page1 page2 =
     (let multi1 = word_of_int page1 * word_of_nat (MULTIXACT_OFFSETS_PER_PAGE BLCKSZ);
          multi1 = multi1 + (FirstMultiXactId + 1);
          multi2 = word_of_int page2 * word_of_nat (MULTIXACT_OFFSETS_PER_PAGE BLCKSZ);
          multi2 = multi2 + (FirstMultiXactId + 1)
      in MultiXactIdPrecedes multi1 multi2
         \<and> MultiXactIdPrecedes multi1
              (multi2 + word_of_nat (MULTIXACT_OFFSETS_PER_PAGE BLCKSZ) - 1))"

definition MultiXactMemberPagePrecedes :: "nat \<Rightarrow> pageno \<Rightarrow> pageno \<Rightarrow> bool" where
  "MultiXactMemberPagePrecedes BLCKSZ page1 page2 =
     (let offset1 = word_of_int page1 * word_of_nat (MULTIXACT_MEMBERS_PER_PAGE BLCKSZ);
          offset2 = word_of_int page2 * word_of_nat (MULTIXACT_MEMBERS_PER_PAGE BLCKSZ)
      in MultiXactOffsetPrecedes offset1 offset2
         \<and> MultiXactOffsetPrecedes offset1
              (offset2 + word_of_nat (MULTIXACT_MEMBERS_PER_PAGE BLCKSZ) - 1))"

text \<open>
  A second example state: the offsets log of multixact.c with 8 kB blocks, holding the
  full bank above with page 70 as the latest page, over three full segment files.
\<close>

definition example_truncate_ctl :: "nat SlruCtlData" where
  "example_truncate_ctl =
     example_full_bank\<lparr>shared := (shared example_full_bank)\<lparr>latest_page_number := 70\<rparr>,
                        PagePrecedes := MultiXactOffsetPagePrecedes 8192 1,
                        Dir := [(0, replicate 32 7), (1, replicate 32 7), (2, replicate 32 7)]\<rparr>"

section \<open>Verification\<close>

subsection \<open>Signed reading of 64-bit differences\<close>

lemma odd_top_bit:
  assumes "0 \<le> (x::int)" "x < 18446744073709551616"
  shows "odd (x div 9223372036854775808) = (9223372036854775808 \<le> x)"
proof (cases "9223372036854775808 \<le> x")
  case True
  then have "x div 9223372036854775808 = 1"
    using assms by (intro int_div_pos_eq[where r = "x - 9223372036854775808"]) auto
  then show ?thesis using True by simp
next
  case False
  then have "x div 9223372036854775808 = 0" using assms by simp
  then show ?thesis using False by simp
qed

lemma sint_neg_iff: "(sint (w :: 64 word) < 0) = (9223372036854775808 \<le> uint w)"
proof -
  have "sint w < 0 \<longleftrightarrow> bit w 63" using bit_last_iff[of w] by simp
  also have "\<dots> \<longleftrightarrow> bit (uint w) 63" by (simp add: bit_uint_iff)
  also have "\<dots> \<longleftrightarrow> odd (uint w div 2^63)" by (simp add: bit_iff_odd)
  also have "\<dots> \<longleftrightarrow> 9223372036854775808 \<le> uint w"
    using odd_top_bit[of "uint w"] uint_lt2p[of w] by simp
  finally show ?thesis .
qed

lemma uint_sub64:
  "uint (a - b :: 64 word) =
     (if uint b \<le> uint a then uint a - uint b else uint a - uint b + 2 * 9223372036854775808)"
  by (simp add: uint_sub_if')

lemma uint_bounds64: "0 \<le> uint (a :: 64 word)" "uint a < 2 * 9223372036854775808"
  using uint_lt2p[of a] by simp_all

lemma mod_add_half:
  "0 \<le> (x::int) \<Longrightarrow> x < 18446744073709551616 \<Longrightarrow>
   (x + 9223372036854775808) mod 18446744073709551616 =
     (if x < 9223372036854775808 then x + 9223372036854775808 else x - 9223372036854775808)"
  by (auto intro!: int_mod_pos_eq[where q=1])

lemma ring_antipodal:
  "0 \<le> (x::int) \<Longrightarrow> x < 2 * M \<Longrightarrow> 0 \<le> y \<Longrightarrow> y < 2 * M \<Longrightarrow>
   (M \<le> (if y \<le> x then x - y else x - y + 2 * M) \<and>
    M \<le> (if x \<le> y then y - x else y - x + 2 * M))
   = (y = (if x < M then x + M else x - M))"
  by (auto split: if_splits)

lemma ring_half_transitive:
  fixes a b c z M :: int
  assumes "0 \<le> a" "a < 2 * M" "0 \<le> b" "b < 2 * M" "0 \<le> c" "c < 2 * M" "0 \<le> z" "z < 2 * M"
    "(if z \<le> a then a - z else a - z + 2 * M) < M"
    "(if z \<le> b then b - z else b - z + 2 * M) < M"
    "(if z \<le> c then c - z else c - z + 2 * M) < M"
    "M \<le> (if b \<le> a then a - b else a - b + 2 * M)"
    "M \<le> (if c \<le> b then b - c else b - c + 2 * M)"
  shows "M \<le> (if c \<le> a then a - c else a - c + 2 * M)"
  using assms by (auto split: if_splits)

lemma sint_diff_antipodal:
  "(sint (a - b :: 64 word) < 0 \<and> sint (b - a) < 0) = (b = a + 2^63)"
proof -
  have ua': "uint a < 18446744073709551616" using uint_bounds64[of a] by simp
  have e: "(b = a + 2^63) =
           (uint b = (uint a + 9223372036854775808) mod 18446744073709551616)"
    by (simp add: word_uint_eq_iff uint_word_ariths)
  show ?thesis
    unfolding sint_neg_iff e mod_add_half[OF uint_bounds64(1) ua'] uint_sub64
    by (rule ring_antipodal[OF uint_bounds64 uint_bounds64])
qed

lemma sint_diff_half_transitive:
  fixes a b c z :: "64 word"
  assumes "uint (a - z) < 9223372036854775808" "uint (b - z) < 9223372036854775808"
    "uint (c - z) < 9223372036854775808" "sint (a - b) < 0" "sint (b - c) < 0"
  shows "sint (a - c) < 0"
  unfolding sint_neg_iff uint_sub64
  by (rule ring_half_transitive[OF uint_bounds64 uint_bounds64 uint_bounds64 uint_bounds64[of z]
        assms[unfolded sint_neg_iff uint_sub64]])

subsection \<open>Circular comparison\<close>

text \<open>
  C2: \<open>MultiXactIdPrecedes a b\<close> holds exactly when the 64-bit difference \<open>a - b\<close>, read as
  a signed number, is negative.  Every identifier precedes its successor and is not
  preceded by it; no identifier precedes itself; two identifiers precede each other
  exactly when they are antipodal (\<open>b = a + 2^63\<close>); the relation is not transitive on
  the whole ring (a chain of two steps can lead to a pair that is not related), but it is
  transitive on any three identifiers lying in one half of the ring, that is within
  \<open>2^63\<close> positions after a common origin \<open>z\<close>.
\<close>

theorem C2_circular_precedes:
  "(MultiXactIdPrecedes a b \<longleftrightarrow> sint (a - b) < 0)
   \<and> MultiXactIdPrecedes a (a + 1)
   \<and> \<not> MultiXactIdPrecedes (a + 1) a
   \<and> \<not> MultiXactIdPrecedes a a
   \<and> ((MultiXactIdPrecedes a b \<and> MultiXactIdPrecedes b a) \<longleftrightarrow> b = a + 2^63)
   \<and> (\<exists>x y z. MultiXactIdPrecedes x y \<and> MultiXactIdPrecedes y z \<and> \<not> MultiXactIdPrecedes x z)
   \<and> (uint (a - z) < 2^63 \<and> uint (b - z) < 2^63 \<and> uint (c - z) < 2^63
        \<and> MultiXactIdPrecedes a b \<and> MultiXactIdPrecedes b c
      \<longrightarrow> MultiXactIdPrecedes a c)"
proof -
  have nontrans: "\<exists>x y z. MultiXactIdPrecedes x y \<and> MultiXactIdPrecedes y z
                    \<and> \<not> MultiXactIdPrecedes x z"
  proof -
    have "MultiXactIdPrecedes 0 (2^62 + 2^62 - 1)
          \<and> MultiXactIdPrecedes (2^62 + 2^62 - 1) (2^63 + 2^62)
          \<and> \<not> MultiXactIdPrecedes 0 (2^63 + 2^62)"
      by (simp add: MultiXactIdPrecedes_def)
    then show ?thesis by blast
  qed
  have half: "uint (a - z) < 2^63 \<and> uint (b - z) < 2^63 \<and> uint (c - z) < 2^63
        \<and> MultiXactIdPrecedes a b \<and> MultiXactIdPrecedes b c
      \<longrightarrow> MultiXactIdPrecedes a c"
    using sint_diff_half_transitive[of a z b c] by (simp add: MultiXactIdPrecedes_def)
  show ?thesis
    using nontrans half sint_diff_antipodal[of a b]
    by (simp add: MultiXactIdPrecedes_def)
qed

theorem C2_circular_precedes_witness:
  "uint ((5::64 word) - 2) < 2^63 \<and> uint ((7::64 word) - 2) < 2^63
   \<and> uint ((9::64 word) - 2) < 2^63
   \<and> MultiXactIdPrecedes 5 7 \<and> MultiXactIdPrecedes 7 9 \<and> MultiXactIdPrecedes 5 9
   \<and> MultiXactIdPrecedes 5 (5 + 2^63) \<and> MultiXactIdPrecedes (5 + 2^63) 5"
proof -
  have h: "uint ((5::64 word) - 2) < 2^63 \<and> uint ((7::64 word) - 2) < 2^63
     \<and> uint ((9::64 word) - 2) < 2^63 \<and> MultiXactIdPrecedes 5 7 \<and> MultiXactIdPrecedes 7 9"
    by (simp add: MultiXactIdPrecedes_def)
  have anti: "MultiXactIdPrecedes 5 (5 + 2^63) \<and> MultiXactIdPrecedes (5 + 2^63) 5"
    using C2_circular_precedes[of 5 "5 + 2^63" 2 5] by blast
  show ?thesis
    using h anti C2_circular_precedes[of 5 7 2 9] by blast
qed

subsection \<open>Read-only accessors of the multixact counters\<close>

text \<open>
  C10: \<open>ReadNextMultiXactId\<close> and \<open>ReadMultiXactIdRange\<close> return the shared counters
  clamped from below to \<open>FirstMultiXactId\<close>: no returned value is below
  \<open>FirstMultiXactId\<close>, a counter that has wrapped into the reserved range
  \<open>[0, FirstMultiXactId)\<close> is reported as \<open>FirstMultiXactId\<close>, any other counter is
  reported unchanged, and (\<open>FirstMultiXactId\<close> being above \<open>InvalidMultiXactId\<close>) the
  callers never see \<open>InvalidMultiXactId\<close>.
\<close>

theorem C10_read_accessors_clamped:
  assumes "InvalidMultiXactId < FirstMultiXactId"
  shows "FirstMultiXactId \<le> ReadNextMultiXactId FirstMultiXactId st
     \<and> FirstMultiXactId \<le> fst (ReadMultiXactIdRange FirstMultiXactId st)
     \<and> FirstMultiXactId \<le> snd (ReadMultiXactIdRange FirstMultiXactId st)
     \<and> ReadNextMultiXactId FirstMultiXactId st = max FirstMultiXactId (nextMXact st)
     \<and> ReadMultiXactIdRange FirstMultiXactId st =
         (max FirstMultiXactId (oldestMultiXactId st), max FirstMultiXactId (nextMXact st))
     \<and> MultiXactIdIsValid (ReadNextMultiXactId FirstMultiXactId st)
     \<and> MultiXactIdIsValid (fst (ReadMultiXactIdRange FirstMultiXactId st))
     \<and> MultiXactIdIsValid (snd (ReadMultiXactIdRange FirstMultiXactId st))"
proof -
  have nz: "x \<noteq> InvalidMultiXactId" if "FirstMultiXactId \<le> x" for x
    using that assms by auto
  have next_eq: "ReadNextMultiXactId FirstMultiXactId st = max FirstMultiXactId (nextMXact st)"
    by (auto simp add: ReadNextMultiXactId_def Let_def max_def)
  have range_eq: "ReadMultiXactIdRange FirstMultiXactId st =
         (max FirstMultiXactId (oldestMultiXactId st), max FirstMultiXactId (nextMXact st))"
    by (auto simp add: ReadMultiXactIdRange_def Let_def max_def)
  show ?thesis
    unfolding next_eq range_eq MultiXactIdIsValid_def
    by (simp add: nz)
qed

theorem C10_read_accessors_clamped_witness:
  "InvalidMultiXactId < (1::64 word)
   \<and> ReadNextMultiXactId 1 \<lparr>nextMXact = 0, nextOffset = 0, finishedStartup = True,
        oldestMultiXactId = 0, oldestMultiXactDB = 0, multiVacLimit = 0,
        OldestMemberMXactId = [], OldestVisibleMXactId = []\<rparr> = 1
   \<and> ReadMultiXactIdRange 1 \<lparr>nextMXact = 0, nextOffset = 0, finishedStartup = True,
        oldestMultiXactId = 0, oldestMultiXactDB = 0, multiVacLimit = 0,
        OldestMemberMXactId = [], OldestVisibleMXactId = []\<rparr> = (1, 1)"
proof -
  have h: "InvalidMultiXactId < (1::64 word)" by (simp add: InvalidMultiXactId_def)
  show ?thesis
    using h C10_read_accessors_clamped[OF h, of "\<lparr>nextMXact = 0, nextOffset = 0,
        finishedStartup = True, oldestMultiXactId = 0, oldestMultiXactDB = 0, multiVacLimit = 0,
        OldestMemberMXactId = [], OldestVisibleMXactId = []\<rparr>"]
    by simp
qed

subsection \<open>Page and entry arithmetic\<close>

lemma sint_eq_uint_small:
  "uint (w :: 64 word) < 9223372036854775808 \<Longrightarrow> sint w = uint w"
proof -
  assume a: "uint w < 9223372036854775808"
  have "(- (2 ^ 63) :: int) \<le> 0" by simp
  also have "0 \<le> uint w" by simp
  finally have "- (2 ^ 63) \<le> uint w" .
  moreover have "uint w < 2 ^ 63" using a by simp
  ultimately have "signed_take_bit 63 (uint w) = uint w"
    by (rule signed_take_bit_int_eq_self)
  then show ?thesis by (simp add: sint_uint)
qed

lemma uint_word_of_nat_small:
  "n < 4294967296 \<Longrightarrow> uint (word_of_nat n :: 64 word) = int n"
  by (simp add: uint_nat unat_of_nat)

lemma uint_div_small:
  assumes "2 \<le> P" "P < 4294967296"
  shows "uint ((x :: 64 word) div word_of_nat P) < 9223372036854775808"
proof -
  have "uint (x div word_of_nat P) = uint x div int P"
    using assms by (simp add: uint_div uint_word_of_nat_small)
  also have "\<dots> \<le> uint x div 2"
    using assms by (intro zdiv_mono2) auto
  also have "\<dots> < 9223372036854775808"
    using uint_bounds64[of x] by simp
  finally show ?thesis .
qed

lemma page_entry_recombine:
  assumes "2 \<le> P" "P < 4294967296"
  shows "sint ((x :: 64 word) div word_of_nat P) * int P + uint (x mod word_of_nat P) = uint x"
    and "sint (x div word_of_nat P) = uint x div int P"
    and "uint (x mod word_of_nat P) = uint x mod int P"
proof -
  show d: "sint (x div word_of_nat P) = uint x div int P"
    using assms uint_div_small[OF assms, of x]
    by (simp add: sint_eq_uint_small uint_div uint_word_of_nat_small)
  show m: "uint (x mod word_of_nat P) = uint x mod int P"
    using assms by (simp add: uint_mod uint_word_of_nat_small)
  show "sint (x div word_of_nat P) * int P + uint (x mod word_of_nat P) = uint x"
    unfolding d m by simp
qed

lemma member_location_inj:
  fixes n1 n2 G :: int
  assumes G: "0 < G"
    and page: "n1 div (8 * G) = n2 div (8 * G)"
    and loc: "(n1 div 8) mod G * 72 + 8 + (n1 mod 8) * 8 = (n2 div 8) mod G * 72 + 8 + (n2 mod 8) * 8"
  shows "n1 = n2"
proof -
  have b1: "0 \<le> n1 mod 8" "n1 mod 8 < 8" by simp_all
  have b2: "0 \<le> n2 mod 8" "n2 mod 8 < 8" by simp_all
  from loc b1 b2 have g: "(n1 div 8) mod G = (n2 div 8) mod G" by arith
  with loc have m: "n1 mod 8 = n2 mod 8" by simp
  have "n1 div 8 div G = n2 div 8 div G"
    using page G by (simp add: zdiv_zmult2_eq)
  with g have "n1 div 8 = n2 div 8"
    by (metis div_mult_mod_eq)
  with m show ?thesis
    by (metis div_mult_mod_eq)
qed

lemma sizes_simps:
  "MULTIXACT_MEMBERS_PER_MEMBERGROUP = 8" "MULTIXACT_MEMBERGROUP_SIZE = 72"
  "MULTIXACT_FLAGBYTES_PER_GROUP = 8" "sizeof_TransactionId = 8"
  "MXACT_MEMBER_BITS_PER_XACT = 8" "sizeof_MultiXactOffset = 8"
  "SizeOfCommitTimestampEntry = 10"
  by (simp_all add: MULTIXACT_MEMBERS_PER_MEMBERGROUP_def MULTIXACT_MEMBERGROUP_SIZE_def
      MULTIXACT_FLAGBYTES_PER_GROUP_def sizeof_TransactionId_def MXACT_MEMBER_FLAGS_PER_BYTE_def
      MXACT_MEMBER_BITS_PER_XACT_def sizeof_MultiXactOffset_def SizeOfCommitTimestampEntry_def)

lemma member_functions_int:
  assumes "72 \<le> BLCKSZ" "BLCKSZ < 2147483648"
  shows "MXOffsetToMemberPage BLCKSZ off = uint off div (8 * int (MULTIXACT_MEMBERGROUPS_PER_PAGE BLCKSZ))"
    and "MXOffsetToFlagsOffset BLCKSZ off =
           (uint off div 8) mod int (MULTIXACT_MEMBERGROUPS_PER_PAGE BLCKSZ) * 72"
    and "MXOffsetToFlagsBitShift off = (uint off mod 8) * 8"
    and "MXOffsetToMemberOffset BLCKSZ off =
           (uint off div 8) mod int (MULTIXACT_MEMBERGROUPS_PER_PAGE BLCKSZ) * 72 + 8
           + (uint off mod 8) * 8"
    and "0 < int (MULTIXACT_MEMBERGROUPS_PER_PAGE BLCKSZ)"
    and "int (MULTIXACT_MEMBERGROUPS_PER_PAGE BLCKSZ) * 72 \<le> int BLCKSZ"
proof -
  let ?G = "MULTIXACT_MEMBERGROUPS_PER_PAGE BLCKSZ"
  have G: "1 \<le> ?G" "?G < 4294967296" "?G * 72 \<le> BLCKSZ"
    using assms by (simp_all add: MULTIXACT_MEMBERGROUPS_PER_PAGE_def sizes_simps
        Suc_le_eq div_greater_zero_iff less_mult_imp_div_less)
  then have P: "2 \<le> ?G * 8" "?G * 8 < 4294967296"
    using assms by (simp_all add: MULTIXACT_MEMBERGROUPS_PER_PAGE_def sizes_simps)
  show "0 < int ?G" using G by simp
  show "int ?G * 72 \<le> int BLCKSZ" using G(3) by linarith
  show "MXOffsetToMemberPage BLCKSZ off = uint off div (8 * int ?G)"
    using page_entry_recombine(2)[OF P, of off]
    by (simp add: MXOffsetToMemberPage_def MULTIXACT_MEMBERS_PER_PAGE_def sizes_simps mult.commute)
  have grp: "uint (off div 8 mod word_of_nat ?G) = (uint off div 8) mod int ?G"
    using G by (simp add: uint_mod uint_div uint_word_of_nat_small)
  show f: "MXOffsetToFlagsOffset BLCKSZ off = (uint off div 8) mod int ?G * 72"
    using grp by (simp add: MXOffsetToFlagsOffset_def sizes_simps Let_def)
  show "MXOffsetToFlagsBitShift off = (uint off mod 8) * 8"
    by (simp add: MXOffsetToFlagsBitShift_def sizes_simps Let_def uint_mod)
  show "MXOffsetToMemberOffset BLCKSZ off =
           (uint off div 8) mod int ?G * 72 + 8 + (uint off mod 8) * 8"
    by (simp add: MXOffsetToMemberOffset_def f sizes_simps Let_def uint_mod)
qed

text \<open>
  C9: for a block size of at least one member group (72 bytes) whose byte offsets fit a C
  \<open>int\<close>, the page and entry of a multixact identifier recombine to the identifier
  (\<open>page * MULTIXACT_OFFSETS_PER_PAGE + entry = x\<close>, with \<open>0 \<le> entry < MULTIXACT_OFFSETS_PER_PAGE\<close>),
  and likewise for a transaction identifier in the commit-timestamp log.  For a member
  offset, the flag word of its group starts at a multiple of 72 bytes that leaves room
  for the whole group inside the page, the bit shift selects one of the 8 flag bytes,
  and the transaction id lies in the group after the 8 flag bytes, at the slot of the
  same index: \<open>member offset = flags offset + 8 + bit shift\<close>.  Two different offsets of
  the same member page never have the same transaction-id location, nor the same flag
  byte.
\<close>

theorem C9_page_entry_roundtrip:
  assumes "72 \<le> BLCKSZ" "BLCKSZ < 2^31"
  shows "MultiXactIdToOffsetPage BLCKSZ x * int (MULTIXACT_OFFSETS_PER_PAGE BLCKSZ)
           + MultiXactIdToOffsetEntry BLCKSZ x = uint x
     \<and> 0 \<le> MultiXactIdToOffsetEntry BLCKSZ x
     \<and> MultiXactIdToOffsetEntry BLCKSZ x < int (MULTIXACT_OFFSETS_PER_PAGE BLCKSZ)
     \<and> TransactionIdToCTsPage BLCKSZ x * int (COMMIT_TS_XACTS_PER_PAGE BLCKSZ)
           + TransactionIdToCTsEntry BLCKSZ x = uint x
     \<and> 0 \<le> TransactionIdToCTsEntry BLCKSZ x
     \<and> TransactionIdToCTsEntry BLCKSZ x < int (COMMIT_TS_XACTS_PER_PAGE BLCKSZ)
     \<and> 0 \<le> MXOffsetToFlagsOffset BLCKSZ x
     \<and> MXOffsetToFlagsOffset BLCKSZ x mod 72 = 0
     \<and> MXOffsetToFlagsOffset BLCKSZ x + 72 \<le> int BLCKSZ
     \<and> 0 \<le> MXOffsetToFlagsBitShift x \<and> MXOffsetToFlagsBitShift x < 64
     \<and> MXOffsetToFlagsBitShift x mod 8 = 0
     \<and> MXOffsetToMemberOffset BLCKSZ x
           = MXOffsetToFlagsOffset BLCKSZ x + 8 + MXOffsetToFlagsBitShift x
     \<and> (x \<noteq> y \<and> MXOffsetToMemberPage BLCKSZ x = MXOffsetToMemberPage BLCKSZ y
          \<longrightarrow> MXOffsetToMemberOffset BLCKSZ x \<noteq> MXOffsetToMemberOffset BLCKSZ y
            \<and> MXOffsetToFlagsOffset BLCKSZ x + MXOffsetToFlagsBitShift x div 8
                \<noteq> MXOffsetToFlagsOffset BLCKSZ y + MXOffsetToFlagsBitShift y div 8)"
proof -
  have B: "72 \<le> BLCKSZ" "BLCKSZ < 2147483648" using assms by simp_all
  let ?G = "int (MULTIXACT_MEMBERGROUPS_PER_PAGE BLCKSZ)"
  have PO: "2 \<le> MULTIXACT_OFFSETS_PER_PAGE BLCKSZ" "MULTIXACT_OFFSETS_PER_PAGE BLCKSZ < 4294967296"
    using B by (simp_all add: MULTIXACT_OFFSETS_PER_PAGE_def sizes_simps)
  have PC: "2 \<le> COMMIT_TS_XACTS_PER_PAGE BLCKSZ" "COMMIT_TS_XACTS_PER_PAGE BLCKSZ < 4294967296"
    using B by (simp_all add: COMMIT_TS_XACTS_PER_PAGE_def sizes_simps)
  have off: "MultiXactIdToOffsetPage BLCKSZ x * int (MULTIXACT_OFFSETS_PER_PAGE BLCKSZ)
           + MultiXactIdToOffsetEntry BLCKSZ x = uint x"
    unfolding MultiXactIdToOffsetPage_def MultiXactIdToOffsetEntry_def
    by (rule page_entry_recombine(1)[OF PO])
  have offe: "0 \<le> MultiXactIdToOffsetEntry BLCKSZ x
     \<and> MultiXactIdToOffsetEntry BLCKSZ x < int (MULTIXACT_OFFSETS_PER_PAGE BLCKSZ)"
    unfolding MultiXactIdToOffsetEntry_def page_entry_recombine(3)[OF PO]
    using PO by simp
  have cts: "TransactionIdToCTsPage BLCKSZ x * int (COMMIT_TS_XACTS_PER_PAGE BLCKSZ)
           + TransactionIdToCTsEntry BLCKSZ x = uint x"
    unfolding TransactionIdToCTsPage_def TransactionIdToCTsEntry_def
    by (rule page_entry_recombine(1)[OF PC])
  have ctse: "0 \<le> TransactionIdToCTsEntry BLCKSZ x
     \<and> TransactionIdToCTsEntry BLCKSZ x < int (COMMIT_TS_XACTS_PER_PAGE BLCKSZ)"
    unfolding TransactionIdToCTsEntry_def page_entry_recombine(3)[OF PC]
    using PC by simp
  note mf = member_functions_int[OF B]
  have gx: "0 \<le> (uint x div 8) mod ?G" "(uint x div 8) mod ?G < ?G"
    using mf(5) by simp_all
  have f0: "0 \<le> MXOffsetToFlagsOffset BLCKSZ x" unfolding mf(2) using gx by simp
  have f72: "MXOffsetToFlagsOffset BLCKSZ x mod 72 = 0" unfolding mf(2) by simp
  have "((uint x div 8) mod ?G + 1) * 72 \<le> ?G * 72" using gx(2) by simp
  then have fin: "MXOffsetToFlagsOffset BLCKSZ x + 72 \<le> int BLCKSZ"
    unfolding mf(2) using mf(6) by (simp add: algebra_simps)
  have bs: "0 \<le> MXOffsetToFlagsBitShift x \<and> MXOffsetToFlagsBitShift x < 64
     \<and> MXOffsetToFlagsBitShift x mod 8 = 0"
    unfolding mf(3) by simp
  have mo: "MXOffsetToMemberOffset BLCKSZ x
           = MXOffsetToFlagsOffset BLCKSZ x + 8 + MXOffsetToFlagsBitShift x"
    unfolding mf by simp
  have inj: "MXOffsetToMemberOffset BLCKSZ x \<noteq> MXOffsetToMemberOffset BLCKSZ y
            \<and> MXOffsetToFlagsOffset BLCKSZ x + MXOffsetToFlagsBitShift x div 8
                \<noteq> MXOffsetToFlagsOffset BLCKSZ y + MXOffsetToFlagsBitShift y div 8"
    if ne: "x \<noteq> y" and pg: "MXOffsetToMemberPage BLCKSZ x = MXOffsetToMemberPage BLCKSZ y"
  proof -
    have une: "uint x \<noteq> uint y" using ne by (simp add: word_uint_eq_iff)
    have pg': "uint x div (8 * ?G) = uint y div (8 * ?G)" using pg unfolding mf(1) .
    have m: "MXOffsetToMemberOffset BLCKSZ x \<noteq> MXOffsetToMemberOffset BLCKSZ y"
      unfolding mf(4) using member_location_inj[OF mf(5) pg'] une by blast
    have bx: "0 \<le> uint x mod 8" "uint x mod 8 < 8" by simp_all
    have "by": "0 \<le> uint y mod 8" "uint y mod 8 < 8" by simp_all
    have "(uint x div 8) mod ?G * 72 + uint x mod 8 \<noteq> (uint y div 8) mod ?G * 72 + uint y mod 8"
    proof
      assume e: "(uint x div 8) mod ?G * 72 + uint x mod 8 = (uint y div 8) mod ?G * 72 + uint y mod 8"
      from e bx "by" have "(uint x div 8) mod ?G = (uint y div 8) mod ?G" by arith
      with e have "(uint x div 8) mod ?G * 72 + 8 + (uint x mod 8) * 8
                 = (uint y div 8) mod ?G * 72 + 8 + (uint y mod 8) * 8" by simp
      with member_location_inj[OF mf(5) pg'] une show False by blast
    qed
    then show ?thesis using m unfolding mf(2,3) by simp
  qed
  show ?thesis using off offe cts ctse f0 f72 fin bs mo inj by blast
qed

theorem C9_page_entry_roundtrip_witness:
  "72 \<le> (8192::nat) \<and> (8192::nat) < 2^31
   \<and> MultiXactIdToOffsetPage 8192 5000 = 4 \<and> MultiXactIdToOffsetEntry 8192 5000 = 904
   \<and> MXOffsetToMemberPage 8192 5000 = MXOffsetToMemberPage 8192 5001
   \<and> MXOffsetToMemberOffset 8192 5000 \<noteq> MXOffsetToMemberOffset 8192 5001"
proof -
  have h: "72 \<le> (8192::nat)" "(8192::nat) < 2^31" by simp_all
  have p: "MXOffsetToMemberPage 8192 5000 = MXOffsetToMemberPage 8192 5001"
    by (simp add: MXOffsetToMemberPage_def MULTIXACT_MEMBERS_PER_PAGE_def
        MULTIXACT_MEMBERGROUPS_PER_PAGE_def sizes_simps)
  have e: "MultiXactIdToOffsetEntry 8192 5000 = 904"
    by (simp add: MultiXactIdToOffsetEntry_def MULTIXACT_OFFSETS_PER_PAGE_def sizes_simps)
  have ne: "(5000::64 word) \<noteq> 5001" by simp
  show ?thesis
    using h p e ne C9_page_entry_roundtrip[OF h, of 5000 5001]
    by (simp add: MULTIXACT_OFFSETS_PER_PAGE_def sizes_simps)
qed


section \<open>The page cache\<close>

subsection \<open>What the two loops of the victim search establish\<close>

lemma SlruSelectLRUPage_find_Some:
  "SlruSelectLRUPage_find sh pageno slots = Some s \<Longrightarrow>
     s \<in> set slots \<and> page_status sh s \<noteq> SLRU_PAGE_EMPTY \<and> page_number sh s = pageno"
  by (induction slots) (auto split: if_splits)

lemma SlruSelectLRUPage_find_None:
  "SlruSelectLRUPage_find sh pageno slots = None \<Longrightarrow> s \<in> set slots \<Longrightarrow>
     page_status sh s = SLRU_PAGE_EMPTY \<or> page_number sh s \<noteq> pageno"
  by (induction slots) (auto split: if_splits)

text \<open>The scan writes nothing but LRU counters.\<close>

lemma SlruSelectLRUPage_scan_frame:
  "SlruSelectLRUPage_scan pp cur slots b sh = (r, b', sh') \<Longrightarrow>
     sh' = sh\<lparr>page_lru_count := page_lru_count sh'\<rparr>"
proof (induction slots arbitrary: b sh)
  case Nil
  then show ?case by simp
next
  case (Cons slotno rest)
  show ?case
  proof (cases "page_status sh slotno = SLRU_PAGE_EMPTY")
    case True
    with Cons.prems show ?thesis by simp
  next
    case False
    let ?sh1 = "if int_less (cur - page_lru_count sh slotno) 0
                then sh\<lparr>page_lru_count := (page_lru_count sh)(slotno := cur)\<rparr> else sh"
    from Cons.prems False obtain b1 where
      "SlruSelectLRUPage_scan pp cur rest b1 ?sh1 = (r, b', sh')"
      by (auto simp: Let_def split: if_splits)
    from Cons.IH[OF this] have "sh' = ?sh1\<lparr>page_lru_count := page_lru_count sh'\<rparr>" .
    then show ?thesis by (auto split: if_splits)
  qed
qed

lemma SlruSelectLRUPage_scan_Some:
  "SlruSelectLRUPage_scan pp cur slots b sh = (Some s, b', sh') \<Longrightarrow>
     s \<in> set slots \<and> page_status sh s = SLRU_PAGE_EMPTY"
proof (induction slots arbitrary: b sh)
  case Nil
  then show ?case by simp
next
  case (Cons slotno rest)
  show ?case
  proof (cases "page_status sh slotno = SLRU_PAGE_EMPTY")
    case True
    with Cons.prems show ?thesis by simp
  next
    case False
    let ?sh1 = "if int_less (cur - page_lru_count sh slotno) 0
                then sh\<lparr>page_lru_count := (page_lru_count sh)(slotno := cur)\<rparr> else sh"
    from Cons.prems False obtain b1 where
      "SlruSelectLRUPage_scan pp cur rest b1 ?sh1 = (Some s, b', sh')"
      by (auto simp: Let_def split: if_splits)
    from Cons.IH[OF this] have "s \<in> set rest \<and> page_status ?sh1 s = SLRU_PAGE_EMPTY" .
    then show ?thesis by (auto split: if_splits)
  qed
qed

lemma valid_candidate_init: "valid_candidate S sh lru_candidates_init"
  by (simp add: valid_candidate_def lru_candidates_init_def int_less_def)

lemma busy_candidate_init: "busy_candidate S sh lru_candidates_init"
  by (simp add: busy_candidate_def lru_candidates_init_def int_less_def)

lemma candidates_complete_init: "candidates_complete {} sh b"
  by (simp add: candidates_complete_def)

text \<open>The three facts together are an invariant of the second loop.\<close>

lemma candidates_lru:
  "valid_candidate S (sh\<lparr>page_lru_count := c\<rparr>) b = valid_candidate S sh b"
  "busy_candidate S (sh\<lparr>page_lru_count := c\<rparr>) b = busy_candidate S sh b"
  "candidates_complete S (sh\<lparr>page_lru_count := c\<rparr>) b = candidates_complete S sh b"
  by (simp_all add: valid_candidate_def busy_candidate_def candidates_complete_def)

text \<open>One round of the second loop, on a slot that is not empty.\<close>

lemma candidates_step:
  assumes d: "\<not> int_less d 0" and ne: "page_status sh slotno \<noteq> SLRU_PAGE_EMPTY"
    and b1: "b1 = (if page_number sh slotno = latest_page_number sh then b
             else if page_status sh slotno = SLRU_PAGE_VALID
             then (if int_less (best_valid_delta b) d
                      \<or> (d = best_valid_delta b
                          \<and> pp (page_number sh slotno) (best_valid_page_number b))
                   then b\<lparr>bestvalidslot := slotno, best_valid_delta := d,
                          best_valid_page_number := page_number sh slotno\<rparr>
                   else b)
             else (if int_less (best_invalid_delta b) d
                      \<or> (d = best_invalid_delta b
                          \<and> pp (page_number sh slotno) (best_invalid_page_number b))
                   then b\<lparr>bestinvalidslot := slotno, best_invalid_delta := d,
                          best_invalid_page_number := page_number sh slotno\<rparr>
                   else b))"
    and v: "valid_candidate S sh b" and i: "busy_candidate S sh b"
    and c: "candidates_complete S sh b"
  shows "valid_candidate (insert slotno S) sh b1" "busy_candidate (insert slotno S) sh b1"
    "candidates_complete (insert slotno S) sh b1"
proof -
  have busy: "page_status sh slotno \<noteq> SLRU_PAGE_VALID \<Longrightarrow>
     page_status sh slotno = SLRU_PAGE_READ_IN_PROGRESS
     \<or> page_status sh slotno = SLRU_PAGE_WRITE_IN_PROGRESS"
    using ne by (cases "page_status sh slotno") simp_all
  have mono: "\<And>x. \<not> int_less x d \<Longrightarrow> \<not> int_less x 0"
    using d unfolding int_less_def by linarith
  show "valid_candidate (insert slotno S) sh b1"
    using v d unfolding valid_candidate_def b1 by auto
  show "busy_candidate (insert slotno S) sh b1"
    using i d busy unfolding busy_candidate_def b1 by auto
  show "candidates_complete (insert slotno S) sh b1"
    unfolding candidates_complete_def
  proof
    fix s
    assume s: "s \<in> insert slotno S"
    show "page_status sh s \<noteq> SLRU_PAGE_EMPTY
         \<and> (page_number sh s \<noteq> latest_page_number sh \<longrightarrow>
              (if page_status sh s = SLRU_PAGE_VALID
               then \<not> int_less (best_valid_delta b1) 0
               else \<not> int_less (best_invalid_delta b1) 0))"
    proof (cases "s = slotno")
      case True
      with ne d mono show ?thesis unfolding b1 by auto
    next
      case False
      with s have "s \<in> S" by simp
      with c have old: "page_status sh s \<noteq> SLRU_PAGE_EMPTY
         \<and> (page_number sh s \<noteq> latest_page_number sh \<longrightarrow>
              (if page_status sh s = SLRU_PAGE_VALID
               then \<not> int_less (best_valid_delta b) 0
               else \<not> int_less (best_invalid_delta b) 0))"
        unfolding candidates_complete_def by blast
      with d show ?thesis unfolding b1 by auto
    qed
  qed
qed

text \<open>The three facts together are an invariant of the second loop.\<close>

lemma SlruSelectLRUPage_scan_candidates:
  "SlruSelectLRUPage_scan pp cur slots b sh = (None, b', sh') \<Longrightarrow>
     valid_candidate S sh b \<Longrightarrow> busy_candidate S sh b \<Longrightarrow> candidates_complete S sh b \<Longrightarrow>
     valid_candidate (S \<union> set slots) sh' b' \<and> busy_candidate (S \<union> set slots) sh' b'
       \<and> candidates_complete (S \<union> set slots) sh' b'"
proof (induction slots arbitrary: b sh S)
  case Nil
  then show ?case by simp
next
  case (Cons slotno rest)
  define d0 where "d0 = cur - page_lru_count sh slotno"
  define sh1 where "sh1 = sh\<lparr>page_lru_count :=
      (if int_less d0 0 then (page_lru_count sh)(slotno := cur) else page_lru_count sh)\<rparr>"
  define d where "d = (if int_less d0 0 then 0 else d0)"
  define b1 where "b1 = (if page_number sh1 slotno = latest_page_number sh1 then b
             else if page_status sh1 slotno = SLRU_PAGE_VALID
             then (if int_less (best_valid_delta b) d
                      \<or> (d = best_valid_delta b
                          \<and> pp (page_number sh1 slotno) (best_valid_page_number b))
                   then b\<lparr>bestvalidslot := slotno, best_valid_delta := d,
                          best_valid_page_number := page_number sh1 slotno\<rparr>
                   else b)
             else (if int_less (best_invalid_delta b) d
                      \<or> (d = best_invalid_delta b
                          \<and> pp (page_number sh1 slotno) (best_invalid_page_number b))
                   then b\<lparr>bestinvalidslot := slotno, best_invalid_delta := d,
                          best_invalid_page_number := page_number sh1 slotno\<rparr>
                   else b))"
  have d: "\<not> int_less d 0" by (simp add: d_def int_less_def)
  have ne: "page_status sh slotno \<noteq> SLRU_PAGE_EMPTY"
    using Cons.prems(1) by (auto split: if_splits)
  then have ne1: "page_status sh1 slotno \<noteq> SLRU_PAGE_EMPTY" by (simp add: sh1_def)
  have step: "SlruSelectLRUPage_scan pp cur (slotno # rest) b sh
                = SlruSelectLRUPage_scan pp cur rest b1 sh1"
    using ne unfolding b1_def d_def sh1_def d0_def by (simp add: Let_def)
  with Cons.prems(1) have run: "SlruSelectLRUPage_scan pp cur rest b1 sh1 = (None, b', sh')"
    by simp
  have old: "valid_candidate S sh1 b" "busy_candidate S sh1 b" "candidates_complete S sh1 b"
    using Cons.prems(2-4) by (simp_all add: sh1_def candidates_lru)
  note new = candidates_step[where pp = pp and S = S, OF d ne1 b1_def old]
  from Cons.IH[OF run new] show ?case by simp
qed

subsection \<open>What a victim search leaves untouched\<close>

lemma slru_frame_refl: "slru_frame ctl ctl"
  by (simp add: slru_frame_def)

lemma slru_frame_status:
  assumes "slru_frame ctl ctl'"
  shows "page_status (shared ctl') t = page_status (shared ctl) t
             \<or> (page_status (shared ctl) t = SLRU_PAGE_READ_IN_PROGRESS
                 \<and> page_status (shared ctl') t = SLRU_PAGE_EMPTY)
             \<or> (page_status (shared ctl) t = SLRU_PAGE_WRITE_IN_PROGRESS
                 \<and> page_status (shared ctl') t = SLRU_PAGE_VALID)"
  using assms unfolding slru_frame_def by blast

lemma slru_frame_trans:
  assumes ab: "slru_frame a b" and bc: "slru_frame b c"
  shows "slru_frame a c"
  unfolding slru_frame_def
proof (intro conjI allI)
  show "nbanks c = nbanks a" "PagePrecedes c = PagePrecedes a"
    "num_slots (shared c) = num_slots (shared a)"
    "page_number (shared c) = page_number (shared a)"
    "latest_page_number (shared c) = latest_page_number (shared a)"
    "page_buffer (shared c) = page_buffer (shared a)"
    using ab bc by (simp_all add: slru_frame_def)
  fix t
  show "page_status (shared c) t = page_status (shared a) t
             \<or> (page_status (shared a) t = SLRU_PAGE_READ_IN_PROGRESS
                 \<and> page_status (shared c) t = SLRU_PAGE_EMPTY)
             \<or> (page_status (shared a) t = SLRU_PAGE_WRITE_IN_PROGRESS
                 \<and> page_status (shared c) t = SLRU_PAGE_VALID)"
    using slru_frame_status[OF ab, of t] slru_frame_status[OF bc, of t] by auto
qed

lemma slru_frame_valid:
  "slru_frame ctl ctl' \<Longrightarrow> page_status (shared ctl) t = SLRU_PAGE_VALID \<Longrightarrow>
     page_status (shared ctl') t = SLRU_PAGE_VALID"
  using slru_frame_status[of ctl ctl' t] by auto

lemma slru_frame_nonempty:
  "slru_frame ctl ctl' \<Longrightarrow> page_status (shared ctl') t \<noteq> SLRU_PAGE_EMPTY \<Longrightarrow>
     page_status (shared ctl) t \<noteq> SLRU_PAGE_EMPTY"
  using slru_frame_status[of ctl ctl' t] by auto

lemma slru_frame_io:
  "slru_frame ctl ctl' \<Longrightarrow> io_in_progress ctl' t \<Longrightarrow> io_in_progress ctl t"
  using slru_frame_status[of ctl ctl' t] unfolding io_in_progress_def by auto

lemma slru_frame_bank: "slru_frame ctl ctl' \<Longrightarrow> bank_slots ctl' pageno = bank_slots ctl pageno"
  by (simp add: slru_frame_def bank_slots_def)

lemma SimpleLruWaitIO_frame: "slru_frame ctl (SimpleLruWaitIO ctl slotno)"
  by (auto simp: slru_frame_def SimpleLruWaitIO_def Let_def)

lemma SlruPhysicalWritePage_shared:
  "SlruPhysicalWritePage E ctl pageno slotno = (r, ctl') \<Longrightarrow>
     shared ctl' = shared ctl \<and> nbanks ctl' = nbanks ctl \<and> PagePrecedes ctl' = PagePrecedes ctl"
  by (auto simp: SlruPhysicalWritePage_def Let_def split: if_splits)

text \<open>A physical write fails only where the environment makes a step of it fail, or the
  page lies at a negative offset of its file.\<close>

lemma SlruPhysicalWritePage_error:
  "SlruPhysicalWritePage E ctl pageno slotno = (Inl cause, ctl') \<Longrightarrow>
     write_failure E (pageno sdiv SLRU_PAGES_PER_SEGMENT E) = Some cause
     \<or> (cause = SLRU_WRITE_FAILED \<and> pageno smod SLRU_PAGES_PER_SEGMENT E < 0)"
  by (auto simp: SlruPhysicalWritePage_def Let_def split: if_splits)

text \<open>
  \<^verbatim>\<open>SlruInternalWritePage\<close> on a slot that is not being written: nothing happens unless
  the slot is valid and dirty; then the page is written, and the slot is clean afterwards
  if the write succeeds, dirty again if it fails.
\<close>

lemma SlruInternalWritePage_cases:
  assumes run: "SlruInternalWritePage E ctl slotno = (r, ctl')"
    and nw: "page_status (shared ctl) slotno \<noteq> SLRU_PAGE_WRITE_IN_PROGRESS"
  shows "(r = Inr () \<and> ctl' = ctl
            \<and> \<not> (page_dirty (shared ctl) slotno \<and> page_status (shared ctl) slotno = SLRU_PAGE_VALID))
     \<or> (page_dirty (shared ctl) slotno \<and> page_status (shared ctl) slotno = SLRU_PAGE_VALID
         \<and> nbanks ctl' = nbanks ctl \<and> PagePrecedes ctl' = PagePrecedes ctl
         \<and> ((r = Inr () \<and> shared ctl' = (shared ctl)\<lparr>page_dirty :=
                                 (page_dirty (shared ctl))(slotno := False)\<rparr>)
            \<or> ((\<exists>cause. r = Inl (SlruIOError cause (page_number (shared ctl) slotno)
                                   InvalidTransactionId)
                   \<and> (write_failure E (page_number (shared ctl) slotno
                                         sdiv SLRU_PAGES_PER_SEGMENT E) = Some cause
                      \<or> (cause = SLRU_WRITE_FAILED
                          \<and> page_number (shared ctl) slotno smod SLRU_PAGES_PER_SEGMENT E < 0)))
                \<and> shared ctl' = shared ctl)))"
proof (cases "page_dirty (shared ctl) slotno \<and> page_status (shared ctl) slotno = SLRU_PAGE_VALID")
  case False
  with run nw show ?thesis by (auto simp: SlruInternalWritePage_def Let_def)
next
  case True
  define c2 where "c2 = ctl\<lparr>shared := (shared ctl)\<lparr>page_status := (page_status (shared ctl))
                  (slotno := SLRU_PAGE_WRITE_IN_PROGRESS),
                page_dirty := (page_dirty (shared ctl))(slotno := False)\<rparr>\<rparr>"
  obtain w c3 where w: "SlruPhysicalWritePage E c2 (page_number (shared ctl) slotno) slotno = (w, c3)"
    by (cases "SlruPhysicalWritePage E c2 (page_number (shared ctl) slotno) slotno")
  note s3 = SlruPhysicalWritePage_shared[OF w]
  have idem: "(page_status (shared ctl))(slotno := SLRU_PAGE_VALID) = page_status (shared ctl)"
    "(page_dirty (shared ctl))(slotno := True) = page_dirty (shared ctl)"
    using True by (simp_all add: fun_upd_idem)
  show ?thesis
  proof (cases w)
    case (Inl cause)
    from run nw True w[unfolded c2_def] Inl
    have r: "r = Inl (SlruIOError cause (page_number (shared ctl) slotno) InvalidTransactionId)"
      and c: "ctl' = c3\<lparr>shared := (shared c3)\<lparr>page_dirty := (page_dirty (shared c3))(slotno := True),
                       page_status := (page_status (shared c3))(slotno := SLRU_PAGE_VALID)\<rparr>\<rparr>"
      by (simp_all add: SlruInternalWritePage_def Let_def)
    have "shared ctl' = shared ctl"
      unfolding c using s3 idem by (simp add: c2_def)
    moreover have "nbanks ctl' = nbanks ctl" "PagePrecedes ctl' = PagePrecedes ctl"
      unfolding c using s3 by (simp_all add: c2_def)
    moreover note SlruPhysicalWritePage_error[OF w[unfolded Inl]]
    ultimately show ?thesis using True r by blast
  next
    case (Inr x)
    from run nw True w[unfolded c2_def] Inr
    have r: "r = Inr ()"
      and c: "ctl' = c3\<lparr>shared := (shared c3)\<lparr>page_status :=
                       (page_status (shared c3))(slotno := SLRU_PAGE_VALID)\<rparr>\<rparr>"
      by (simp_all add: SlruInternalWritePage_def Let_def)
    have "shared ctl' = (shared ctl)\<lparr>page_dirty := (page_dirty (shared ctl))(slotno := False)\<rparr>"
      unfolding c using s3 idem by (simp add: c2_def)
    moreover have "nbanks ctl' = nbanks ctl" "PagePrecedes ctl' = PagePrecedes ctl"
      unfolding c using s3 by (simp_all add: c2_def)
    ultimately show ?thesis using True r by blast
  qed
qed

text \<open>On a slot that is being written, \<^verbatim>\<open>SlruInternalWritePage\<close> first waits.\<close>

lemma SlruInternalWritePage_wait:
  "page_status (shared ctl) slotno = SLRU_PAGE_WRITE_IN_PROGRESS \<Longrightarrow>
     SlruInternalWritePage E ctl slotno = SlruInternalWritePage E (SimpleLruWaitIO ctl slotno) slotno"
  by (simp add: SlruInternalWritePage_def SimpleLruWaitIO_def Let_def)

lemma SimpleLruWaitIO_not_writing:
  "page_status (shared (SimpleLruWaitIO ctl slotno)) slotno \<noteq> SLRU_PAGE_WRITE_IN_PROGRESS"
  by (simp add: SimpleLruWaitIO_def Let_def)

lemma slru_frame_dirty:
  "shared ctl' = (shared ctl)\<lparr>page_dirty := d\<rparr> \<Longrightarrow> nbanks ctl' = nbanks ctl \<Longrightarrow>
     PagePrecedes ctl' = PagePrecedes ctl \<Longrightarrow> slru_frame ctl ctl'"
  by (simp add: slru_frame_def)

lemma slru_frame_same:
  "shared ctl' = shared ctl \<Longrightarrow> nbanks ctl' = nbanks ctl \<Longrightarrow>
     PagePrecedes ctl' = PagePrecedes ctl \<Longrightarrow> slru_frame ctl ctl'"
  by (simp add: slru_frame_def)

lemma SlruInternalWritePage_frame:
  assumes "SlruInternalWritePage E ctl slotno = (r, ctl')"
  shows "slru_frame ctl ctl'"
proof -
  have a: "\<And>c. SlruInternalWritePage E c slotno = (r, ctl') \<Longrightarrow>
     page_status (shared c) slotno \<noteq> SLRU_PAGE_WRITE_IN_PROGRESS \<Longrightarrow> slru_frame c ctl'"
    using SlruInternalWritePage_cases slru_frame_dirty slru_frame_same slru_frame_refl
    by metis
  show ?thesis
  proof (cases "page_status (shared ctl) slotno = SLRU_PAGE_WRITE_IN_PROGRESS")
    case True
    from a[OF assms[unfolded SlruInternalWritePage_wait[OF True]] SimpleLruWaitIO_not_writing]
    show ?thesis using SimpleLruWaitIO_frame slru_frame_trans by blast
  next
    case False
    from a[OF assms False] show ?thesis .
  qed
qed

text \<open>A failed write is reported with the page of the slot and \<^verbatim>\<open>InvalidTransactionId\<close>.\<close>

lemma SlruInternalWritePage_error:
  assumes "SlruInternalWritePage E ctl slotno = (Inl e, ctl')"
  shows "\<exists>cause. e = SlruIOError cause (page_number (shared ctl) slotno) InvalidTransactionId
     \<and> (write_failure E (page_number (shared ctl) slotno sdiv SLRU_PAGES_PER_SEGMENT E) = Some cause
        \<or> (cause = SLRU_WRITE_FAILED
            \<and> page_number (shared ctl) slotno smod SLRU_PAGES_PER_SEGMENT E < 0))"
proof -
  have a: "\<And>c. SlruInternalWritePage E c slotno = (Inl e, ctl') \<Longrightarrow>
     page_status (shared c) slotno \<noteq> SLRU_PAGE_WRITE_IN_PROGRESS \<Longrightarrow>
     \<exists>cause. e = SlruIOError cause (page_number (shared c) slotno) InvalidTransactionId
     \<and> (write_failure E (page_number (shared c) slotno sdiv SLRU_PAGES_PER_SEGMENT E) = Some cause
        \<or> (cause = SLRU_WRITE_FAILED
            \<and> page_number (shared c) slotno smod SLRU_PAGES_PER_SEGMENT E < 0))"
    using SlruInternalWritePage_cases by fastforce
  have pn: "page_number (shared (SimpleLruWaitIO ctl slotno)) = page_number (shared ctl)"
    by (simp add: SimpleLruWaitIO_def Let_def)
  show ?thesis
  proof (cases "page_status (shared ctl) slotno = SLRU_PAGE_WRITE_IN_PROGRESS")
    case True
    from a[OF assms[unfolded SlruInternalWritePage_wait[OF True]] SimpleLruWaitIO_not_writing]
    show ?thesis unfolding pn .
  next
    case False
    from a[OF assms False] show ?thesis .
  qed
qed

subsection \<open>Banks\<close>

lemma SLRU_BANK_SIZE_16: "SLRU_BANK_SIZE = 16"
  by (simp add: SLRU_BANK_SIZE_def SLRU_BANK_BITSHIFT_def)

lemma bank_range: "set [a..a + SLRU_BANK_SIZE - 1] = {s. a \<le> s \<and> s < a + SLRU_BANK_SIZE}"
  by auto

lemma bank_slots_list:
  "bank_slots ctl pageno = set [(pageno smod nbanks ctl) * SLRU_BANK_SIZE
                                  ..(pageno smod nbanks ctl) * SLRU_BANK_SIZE + SLRU_BANK_SIZE - 1]"
  by (auto simp: bank_slots_def Let_def)

lemma finite_bank_slots: "finite (bank_slots ctl pageno)"
  unfolding bank_slots_list by (rule finite_set)

lemma SlotGetBankNumber_bank:
  "b * SLRU_BANK_SIZE \<le> s \<Longrightarrow> s < b * SLRU_BANK_SIZE + SLRU_BANK_SIZE \<Longrightarrow> SlotGetBankNumber s = b"
proof -
  assume a: "b * SLRU_BANK_SIZE \<le> s" "s < b * SLRU_BANK_SIZE + SLRU_BANK_SIZE"
  have "s div 16 = b"
  proof (rule int_div_pos_eq)
    show "s = 16 * b + (s - b * 16)" by simp
    show "0 \<le> s - b * 16" "s - b * 16 < 16" using a by (simp_all add: SLRU_BANK_SIZE_16)
  qed
  then show ?thesis
    by (simp add: SlotGetBankNumber_def SLRU_BANK_BITSHIFT_def drop_bit_eq_div)
qed

lemma same_bank:
  "s \<in> bank_slots ctl pageno \<Longrightarrow> SlotGetBankNumber t = SlotGetBankNumber s \<Longrightarrow>
     t \<in> bank_slots ctl pageno"
proof -
  assume s: "s \<in> bank_slots ctl pageno" and e: "SlotGetBankNumber t = SlotGetBankNumber s"
  let ?b = "pageno smod nbanks ctl"
  from s have "SlotGetBankNumber s = ?b"
    by (simp add: bank_slots_def Let_def SlotGetBankNumber_bank)
  with e have "t div 16 = ?b"
    by (simp add: SlotGetBankNumber_def SLRU_BANK_BITSHIFT_def drop_bit_eq_div)
  then have "?b * 16 \<le> t \<and> t < ?b * 16 + 16" by auto
  then show ?thesis by (simp add: bank_slots_def Let_def SLRU_BANK_SIZE_16)
qed

text \<open>Under the invariant, every bank has a slot that is empty or holds a page other than
  the latest one: the search always has a candidate.\<close>

lemma pages_distinct_candidate:
  assumes "pages_distinct ctl"
  shows "\<exists>s \<in> bank_slots ctl pageno. page_status (shared ctl) s = SLRU_PAGE_EMPTY
           \<or> page_number (shared ctl) s \<noteq> latest_page_number (shared ctl)"
proof -
  let ?b = "pageno smod nbanks ctl"
  let ?s = "?b * SLRU_BANK_SIZE" and ?t = "?b * SLRU_BANK_SIZE + 1"
  have in_bank: "?s \<in> bank_slots ctl pageno" "?t \<in> bank_slots ctl pageno"
    by (simp_all add: bank_slots_def Let_def SLRU_BANK_SIZE_16)
  have "SlotGetBankNumber ?s = ?b" "SlotGetBankNumber ?t = ?b"
    by (rule SlotGetBankNumber_bank; simp add: SLRU_BANK_SIZE_16)+
  then have same: "SlotGetBankNumber ?s = SlotGetBankNumber ?t" by simp
  have ne: "?s \<noteq> ?t" by simp
  show ?thesis
  proof (cases "page_status (shared ctl) ?s = SLRU_PAGE_EMPTY
                  \<or> page_status (shared ctl) ?t = SLRU_PAGE_EMPTY")
    case True
    with in_bank show ?thesis by blast
  next
    case False
    with assms same ne have "page_number (shared ctl) ?s \<noteq> page_number (shared ctl) ?t"
      unfolding pages_distinct_def by blast
    then have "page_number (shared ctl) ?s \<noteq> latest_page_number (shared ctl)
               \<or> page_number (shared ctl) ?t \<noteq> latest_page_number (shared ctl)" by auto
    with in_bank show ?thesis by blast
  qed
qed

lemma pages_distinct_empty:
  "(\<And>s. page_status (shared ctl) s = SLRU_PAGE_EMPTY) \<Longrightarrow> pages_distinct ctl"
  by (simp add: pages_distinct_def)

lemma slru_frame_pages_distinct:
  assumes "slru_frame ctl ctl'" and "pages_distinct ctl"
  shows "pages_distinct ctl'"
  unfolding pages_distinct_def
proof (intro allI impI)
  fix s t
  assume a: "s \<noteq> t \<and> SlotGetBankNumber s = SlotGetBankNumber t
            \<and> page_status (shared ctl') s \<noteq> SLRU_PAGE_EMPTY
            \<and> page_status (shared ctl') t \<noteq> SLRU_PAGE_EMPTY"
  then have "page_status (shared ctl) s \<noteq> SLRU_PAGE_EMPTY"
    "page_status (shared ctl) t \<noteq> SLRU_PAGE_EMPTY"
    using slru_frame_nonempty[OF assms(1)] by blast+
  with a assms(2) have "page_number (shared ctl) s \<noteq> page_number (shared ctl) t"
    unfolding pages_distinct_def by blast
  then show "page_number (shared ctl') s \<noteq> page_number (shared ctl') t"
    using assms(1) by (simp add: slru_frame_def)
qed

text \<open>Putting a page into a slot keeps the invariant when no other slot of the bank holds
  the page.\<close>

lemma pages_distinct_put:
  assumes inv: "pages_distinct ctl"
    and s: "s \<in> bank_slots ctl pageno"
    and others: "\<And>t. t \<in> bank_slots ctl pageno \<Longrightarrow> t \<noteq> s \<Longrightarrow>
                   page_status (shared ctl) t = SLRU_PAGE_EMPTY \<or> page_number (shared ctl) t \<noteq> pageno"
    and pn: "page_number (shared ctl') = (page_number (shared ctl))(s := pageno)"
    and st: "\<And>t. t \<noteq> s \<Longrightarrow> page_status (shared ctl') t \<noteq> SLRU_PAGE_EMPTY \<Longrightarrow>
                   page_status (shared ctl) t \<noteq> SLRU_PAGE_EMPTY"
  shows "pages_distinct ctl'"
  unfolding pages_distinct_def
proof (intro allI impI)
  fix u t
  assume a: "u \<noteq> t \<and> SlotGetBankNumber u = SlotGetBankNumber t
            \<and> page_status (shared ctl') u \<noteq> SLRU_PAGE_EMPTY
            \<and> page_status (shared ctl') t \<noteq> SLRU_PAGE_EMPTY"
  have one: "\<And>t. t \<noteq> s \<Longrightarrow> SlotGetBankNumber t = SlotGetBankNumber s \<Longrightarrow>
               page_status (shared ctl') t \<noteq> SLRU_PAGE_EMPTY \<Longrightarrow> page_number (shared ctl) t \<noteq> pageno"
    using others st same_bank[OF s] by blast
  show "page_number (shared ctl') u \<noteq> page_number (shared ctl') t"
  proof (cases "u = s")
    case True
    with a one[of t] show ?thesis unfolding pn by auto
  next
    case us: False
    show ?thesis
    proof (cases "t = s")
      case True
      with a one[of u] us show ?thesis unfolding pn by auto
    next
      case False
      with us a st have "page_status (shared ctl) u \<noteq> SLRU_PAGE_EMPTY"
        "page_status (shared ctl) t \<noteq> SLRU_PAGE_EMPTY" by blast+
      with a inv have "page_number (shared ctl) u \<noteq> page_number (shared ctl) t"
        unfolding pages_distinct_def by blast
      with us False show ?thesis unfolding pn by simp
    qed
  qed
qed

subsection \<open>The measure of the victim search\<close>

lemma search_measure_cong:
  "page_status (shared ctl') = page_status (shared ctl) \<Longrightarrow>
   page_dirty (shared ctl') = page_dirty (shared ctl) \<Longrightarrow>
     search_measure ctl' B = search_measure ctl B"
  by (simp add: search_measure_def io_in_progress_def needs_write_def)

text \<open>Waiting for a slot that is doing I/O, and writing a valid dirty slot, make the
  measure smaller.\<close>

lemma search_measure_wait:
  assumes fin: "finite B" and u: "u \<in> B" and io: "io_in_progress ctl u"
  shows "search_measure (SimpleLruWaitIO ctl u) B < search_measure ctl B"
proof -
  let ?c = "SimpleLruWaitIO ctl u"
  have i: "\<And>s. io_in_progress ?c s \<longleftrightarrow> io_in_progress ctl s \<and> s \<noteq> u"
    using io by (auto simp: SimpleLruWaitIO_def Let_def io_in_progress_def)
  have n: "\<And>s. needs_write ?c s \<Longrightarrow> s = u \<or> needs_write ctl s"
    using io by (auto simp: SimpleLruWaitIO_def Let_def io_in_progress_def needs_write_def
        split: if_splits)
  have "{s \<in> B. io_in_progress ?c s} = {s \<in> B. io_in_progress ctl s} - {u}"
    using i by auto
  moreover have "u \<in> {s \<in> B. io_in_progress ctl s}" using u io by simp
  moreover have "finite {s \<in> B. io_in_progress ctl s}" using fin by simp
  ultimately have a: "card {s \<in> B. io_in_progress ?c s} + 1 = card {s \<in> B. io_in_progress ctl s}"
    by (metis One_nat_def Suc_eq_plus1 card_Suc_Diff1)
  have "{s \<in> B. needs_write ?c s} \<subseteq> insert u {s \<in> B. needs_write ctl s}"
    using n by auto
  moreover have "finite (insert u {s \<in> B. needs_write ctl s})" using fin by simp
  ultimately have "card {s \<in> B. needs_write ?c s} \<le> card (insert u {s \<in> B. needs_write ctl s})"
    by (rule card_mono[rotated])
  also have "\<dots> \<le> card {s \<in> B. needs_write ctl s} + 1"
    using card_insert_le_m1[of 1 "{s \<in> B. needs_write ctl s}" u] by (simp add: card_insert_if fin)
  finally have b: "card {s \<in> B. needs_write ?c s} \<le> card {s \<in> B. needs_write ctl s} + 1" .
  from a b show ?thesis unfolding search_measure_def by linarith
qed

lemma search_measure_write:
  assumes fin: "finite B" and v: "v \<in> B" and nw: "needs_write ctl v"
    and st: "page_status (shared ctl') = page_status (shared ctl)"
    and dt: "page_dirty (shared ctl') = (page_dirty (shared ctl))(v := False)"
  shows "search_measure ctl' B < search_measure ctl B"
proof -
  have "{s \<in> B. needs_write ctl' s} = {s \<in> B. needs_write ctl s} - {v}"
    unfolding needs_write_def st dt by auto
  moreover have "v \<in> {s \<in> B. needs_write ctl s}" using v nw by simp
  moreover have "finite {s \<in> B. needs_write ctl s}" using fin by simp
  ultimately have a: "card {s \<in> B. needs_write ctl' s} + 1 = card {s \<in> B. needs_write ctl s}"
    by (metis One_nat_def Suc_eq_plus1 card_Suc_Diff1)
  have "card {s \<in> B. io_in_progress ctl' s} = card {s \<in> B. io_in_progress ctl s}"
    unfolding io_in_progress_def st by simp
  with a show ?thesis unfolding search_measure_def by linarith
qed

subsection \<open>The victim search returns\<close>

lemma SlruInternalWritePage_write_failed:
  "SlruInternalWritePage E ctl slotno = (Inl e, ctl') \<Longrightarrow> write_failed E e"
  using SlruInternalWritePage_error[of E ctl slotno e ctl']
  by (auto simp: write_failed_def)

text \<open>
  The search returns whenever its bank has a slot that is empty or holds a page other
  than the latest one: every round that does not return has waited for a slot doing I/O
  or has written a dirty page.
\<close>

lemma SlruSelectLRUPage_returns:
  assumes "\<exists>s \<in> bank_slots ctl pageno. page_status (shared ctl) s = SLRU_PAGE_EMPTY
             \<or> page_number (shared ctl) s \<noteq> latest_page_number (shared ctl)"
  shows "\<exists>y. SlruSelectLRUPage E ctl pageno = Some y"
  using assms
proof (induction "search_measure ctl (bank_slots ctl pageno)" arbitrary: ctl rule: less_induct)
  case less
  let ?bankno = "pageno smod nbanks ctl"
  let ?bs = "?bankno * SLRU_BANK_SIZE"
  let ?slots = "[?bs..?bs + SLRU_BANK_SIZE - 1]"
  let ?B = "bank_slots ctl pageno"
  have B: "?B = set ?slots" by (rule bank_slots_list)
  note eq = SlruSelectLRUPage.simps[of E ctl pageno, unfolded Let_def]
  show ?case
  proof (cases "SlruSelectLRUPage_find (shared ctl) pageno ?slots")
    case (Some s)
    then show ?thesis by (subst eq) simp
  next
    case None
    let ?cur = "bank_cur_lru_count (shared ctl) ?bankno"
    let ?sh0 = "(shared ctl)\<lparr>bank_cur_lru_count := (bank_cur_lru_count (shared ctl))(?bankno := ?cur + 1)\<rparr>"
    obtain r b sh where scan:
      "SlruSelectLRUPage_scan (PagePrecedes ctl) ?cur ?slots lru_candidates_init ?sh0 = (r, b, sh)"
      by (metis prod_cases3)
    have sh: "sh = ?sh0\<lparr>page_lru_count := page_lru_count sh\<rparr>"
      by (rule SlruSelectLRUPage_scan_frame[OF scan])
    define c1 where "c1 = ctl\<lparr>shared := sh\<rparr>"
    have c1: "page_status (shared c1) = page_status (shared ctl)"
      "page_dirty (shared c1) = page_dirty (shared ctl)"
      "page_number (shared c1) = page_number (shared ctl)"
      "latest_page_number (shared c1) = latest_page_number (shared ctl)"
      "nbanks c1 = nbanks ctl"
      unfolding c1_def by (subst sh, simp)+
    have c1s: "shared c1 = sh" by (simp add: c1_def)
    have f1: "slru_frame ctl c1"
      unfolding c1_def by (subst sh) (simp add: slru_frame_def)
    have m1: "search_measure c1 ?B = search_measure ctl ?B"
      by (rule search_measure_cong[OF c1(1,2)])
    show ?thesis
    proof (cases r)
      case (Some s)
      with None scan show ?thesis by (subst eq) simp
    next
      case rNone: None
      from SlruSelectLRUPage_scan_candidates[OF scan[unfolded rNone]
          valid_candidate_init[of "{}"] busy_candidate_init candidates_complete_init]
      have vc: "valid_candidate ?B sh b" and bc: "busy_candidate ?B sh b"
        and cc: "candidates_complete ?B sh b" by (simp_all add: B)
      from less.prems obtain s0 where s0: "s0 \<in> ?B"
        "page_status (shared ctl) s0 = SLRU_PAGE_EMPTY
           \<or> page_number (shared ctl) s0 \<noteq> latest_page_number (shared ctl)" by blast
      from cc s0(1) have s0c: "page_status sh s0 \<noteq> SLRU_PAGE_EMPTY"
        "page_number sh s0 \<noteq> latest_page_number sh \<longrightarrow>
              (if page_status sh s0 = SLRU_PAGE_VALID
               then \<not> int_less (best_valid_delta b) 0
               else \<not> int_less (best_invalid_delta b) 0)"
        unfolding candidates_complete_def by blast+
      with s0(2) c1 have s0l: "page_number sh s0 \<noteq> latest_page_number sh"
        by (simp add: c1s[symmetric])
      show ?thesis
      proof (cases "int_less (best_valid_delta b) 0")
        case True
        with s0c s0l have "\<not> int_less (best_invalid_delta b) 0" by (auto split: if_splits)
        with bc have u: "bestinvalidslot b \<in> ?B" "io_in_progress c1 (bestinvalidslot b)"
          by (simp_all add: busy_candidate_def io_in_progress_def c1s)
        define c2 where "c2 = SimpleLruWaitIO c1 (bestinvalidslot b)"
        have f2: "slru_frame ctl c2"
          unfolding c2_def using f1 SimpleLruWaitIO_frame by (rule slru_frame_trans)
        have bank: "bank_slots c2 pageno = ?B" by (rule slru_frame_bank[OF f2])
        have "search_measure c2 ?B < search_measure c1 ?B"
          unfolding c2_def by (rule search_measure_wait[OF finite_bank_slots u])
        with m1 bank have m: "search_measure c2 (bank_slots c2 pageno) < search_measure ctl ?B"
          by simp
        have "page_number (shared c2) s0 \<noteq> latest_page_number (shared c2)"
          using f2 s0l c1 by (simp add: slru_frame_def c1s[symmetric])
        with s0(1) bank
        have "\<exists>s \<in> bank_slots c2 pageno. page_status (shared c2) s = SLRU_PAGE_EMPTY
             \<or> page_number (shared c2) s \<noteq> latest_page_number (shared c2)" by blast
        from less.hyps[OF m this] obtain y where "SlruSelectLRUPage E c2 pageno = Some y" ..
        with None scan rNone True show ?thesis
          by (subst eq) (simp add: c2_def c1_def)
      next
        case False
        with vc have v: "bestvalidslot b \<in> ?B"
          "page_status sh (bestvalidslot b) = SLRU_PAGE_VALID"
          "page_number sh (bestvalidslot b) \<noteq> latest_page_number sh"
          by (simp_all add: valid_candidate_def)
        show ?thesis
        proof (cases "page_dirty sh (bestvalidslot b)")
          case clean: False
          with None scan rNone False show ?thesis by (subst eq) simp
        next
          case dirty: True
          obtain w c2 where w: "SlruInternalWritePage E c1 (bestvalidslot b) = (w, c2)"
            by (cases "SlruInternalWritePage E c1 (bestvalidslot b)")
          show ?thesis
          proof (cases w)
            case (Inl e)
            with None scan rNone False dirty w show ?thesis
              by (subst eq) (simp add: c1_def)
          next
            case (Inr x)
            have nw: "page_status (shared c1) (bestvalidslot b) \<noteq> SLRU_PAGE_WRITE_IN_PROGRESS"
              using v(2) by (simp add: c1s)
            from SlruInternalWritePage_cases[OF w nw] Inr dirty v(2)
            have c2: "shared c2 = (shared c1)\<lparr>page_dirty :=
                         (page_dirty (shared c1))(bestvalidslot b := False)\<rparr>"
              "nbanks c2 = nbanks c1"
              by (auto simp: c1s)
            have bank: "bank_slots c2 pageno = ?B"
              by (simp add: bank_slots_def c2 c1)
            have "needs_write c1 (bestvalidslot b)"
              using v(2) dirty by (simp add: needs_write_def c1s)
            from search_measure_write[OF finite_bank_slots v(1) this, of c2] c2
            have "search_measure c2 ?B < search_measure c1 ?B" by simp
            with m1 bank have m: "search_measure c2 (bank_slots c2 pageno) < search_measure ctl ?B"
              by simp
            have "page_number (shared c2) (bestvalidslot b) \<noteq> latest_page_number (shared c2)"
              using v(3) by (simp add: c2 c1s)
            with v(1) bank
            have "\<exists>s \<in> bank_slots c2 pageno. page_status (shared c2) s = SLRU_PAGE_EMPTY
                 \<or> page_number (shared c2) s \<noteq> latest_page_number (shared c2)" by blast
            from less.hyps[OF m this] obtain y where "SlruSelectLRUPage E c2 pageno = Some y" ..
            with None scan rNone False dirty w Inr show ?thesis
              by (subst eq) (simp add: c1_def)
          qed
        qed
      qed
    qed
  qed
qed

subsection \<open>What the victim search returns\<close>

lemma search_result_frame:
  "slru_frame ctl c2 \<Longrightarrow> search_result E c2 pageno y \<Longrightarrow> search_result E ctl pageno y"
  unfolding search_result_def using slru_frame_trans by blast

lemma SlruSelectLRUPage_result:
  assumes run: "SlruSelectLRUPage E0 ctl0 pageno0 = Some y0"
  shows "search_result E0 ctl0 pageno0 y0"
proof (rule SlruSelectLRUPage.raw_induct[where P = "\<lambda>E ctl pageno y. search_result E ctl pageno y",
      OF _ run])
  fix rec :: "'a SlruEnv \<Rightarrow> 'a SlruCtlData \<Rightarrow> int \<Rightarrow> ((error + int) \<times> 'a SlruCtlData) option"
    and E ctl pageno y
  assume IH: "\<And>E ctl pageno y. rec E ctl pageno = Some y \<Longrightarrow> search_result E ctl pageno y"
  assume hyps: "(let bankno = pageno smod nbanks ctl;
          bankstart = bankno * SLRU_BANK_SIZE;
          bankend = bankstart + SLRU_BANK_SIZE
      in case SlruSelectLRUPage_find (shared ctl) pageno [bankstart..bankend - 1] of
           Some slotno \<Rightarrow> Some (Inr slotno, ctl)
         | None \<Rightarrow>
             (let cur_count = bank_cur_lru_count (shared ctl) bankno;
                  sh = (shared ctl)\<lparr>bank_cur_lru_count :=
                          (bank_cur_lru_count (shared ctl))(bankno := cur_count + 1)\<rparr>
              in case SlruSelectLRUPage_scan (PagePrecedes ctl) cur_count
                        [bankstart..bankend - 1] lru_candidates_init sh of
                   (Some slotno, b, sh) \<Rightarrow> Some (Inr slotno, ctl\<lparr>shared := sh\<rparr>)
                 | (None, b, sh) \<Rightarrow>
                     if int_less (best_valid_delta b) 0
                     then rec E
                            (SimpleLruWaitIO (ctl\<lparr>shared := sh\<rparr>) (bestinvalidslot b)) pageno
                     else if \<not> page_dirty sh (bestvalidslot b)
                     then Some (Inr (bestvalidslot b), ctl\<lparr>shared := sh\<rparr>)
                     else (case SlruInternalWritePage E (ctl\<lparr>shared := sh\<rparr>) (bestvalidslot b) of
                             (Inl e, ctl) \<Rightarrow> Some (Inl e, ctl)
                           | (Inr _, ctl) \<Rightarrow> rec E ctl pageno))) = Some y"
  let ?bankno = "pageno smod nbanks ctl"
  let ?bs = "?bankno * SLRU_BANK_SIZE"
  let ?slots = "[?bs..?bs + SLRU_BANK_SIZE - 1]"
  let ?B = "bank_slots ctl pageno"
  have B: "?B = set ?slots" by (rule bank_slots_list)
  note body = hyps[unfolded Let_def]
  show "search_result E ctl pageno y"
  proof (cases "SlruSelectLRUPage_find (shared ctl) pageno ?slots")
    case (Some s)
    with body have y: "y = (Inr s, ctl)" by simp
    from SlruSelectLRUPage_find_Some[OF Some] show ?thesis
      unfolding y search_result_def
      by (simp add: slru_frame_refl selected_slot_ok_def bank_range)
  next
    case None
    let ?cur = "bank_cur_lru_count (shared ctl) ?bankno"
    let ?sh0 = "(shared ctl)\<lparr>bank_cur_lru_count := (bank_cur_lru_count (shared ctl))(?bankno := ?cur + 1)\<rparr>"
    obtain r b sh where scan:
      "SlruSelectLRUPage_scan (PagePrecedes ctl) ?cur ?slots lru_candidates_init ?sh0 = (r, b, sh)"
      by (metis prod_cases3)
    have sh: "sh = ?sh0\<lparr>page_lru_count := page_lru_count sh\<rparr>"
      by (rule SlruSelectLRUPage_scan_frame[OF scan])
    define c1 where "c1 = ctl\<lparr>shared := sh\<rparr>"
    have c1: "page_status (shared c1) = page_status (shared ctl)"
      "page_number (shared c1) = page_number (shared ctl)"
      "latest_page_number (shared c1) = latest_page_number (shared ctl)"
      "nbanks c1 = nbanks ctl"
      unfolding c1_def by (subst sh, simp)+
    have c1s: "shared c1 = sh" by (simp add: c1_def)
    have f1: "slru_frame ctl c1"
      unfolding c1_def by (subst sh) (simp add: slru_frame_def)
    have B1: "bank_slots c1 pageno = ?B" by (rule slru_frame_bank[OF f1])
    have absent: "page_absent c1 pageno"
      unfolding page_absent_def B1 c1 using SlruSelectLRUPage_find_None[OF None] B by blast
    have in_bank: "\<And>s. s \<in> ?B \<Longrightarrow> ?bs \<le> s \<and> s < ?bs + SLRU_BANK_SIZE"
      by (simp add: bank_slots_def Let_def)
    show ?thesis
    proof (cases r)
      case (Some s)
      with body None scan have y: "y = (Inr s, c1)" by (simp add: c1_def)
      from SlruSelectLRUPage_scan_Some[OF scan[unfolded Some]]
      have "s \<in> ?B" "page_status (shared c1) s = SLRU_PAGE_EMPTY" by (simp_all add: B c1)
      with in_bank[of s] have "selected_slot_ok c1 pageno s"
        unfolding selected_slot_ok_def by (simp add: Let_def c1)
      with f1 absent show ?thesis unfolding y search_result_def by simp
    next
      case rNone: None
      have cand: "valid_candidate ?B sh b"
        using SlruSelectLRUPage_scan_candidates[OF scan[unfolded rNone]
            valid_candidate_init[of "{}"] busy_candidate_init candidates_complete_init]
        by (simp add: B)
      show ?thesis
      proof (cases "int_less (best_valid_delta b) 0")
        case True
        with body None scan rNone
        have "rec E (SimpleLruWaitIO c1 (bestinvalidslot b)) pageno = Some y"
          by (simp add: c1_def)
        from IH[OF this] slru_frame_trans[OF f1 SimpleLruWaitIO_frame]
        show ?thesis by (rule search_result_frame[rotated])
      next
        case False
        with cand have bv: "bestvalidslot b \<in> ?B"
          "page_status sh (bestvalidslot b) = SLRU_PAGE_VALID"
          "page_number sh (bestvalidslot b) \<noteq> latest_page_number sh"
          by (simp_all add: valid_candidate_def)
        show ?thesis
        proof (cases "page_dirty sh (bestvalidslot b)")
          case clean: False
          with body None scan rNone False have y: "y = (Inr (bestvalidslot b), c1)"
            by (simp add: c1_def)
          have "selected_slot_ok c1 pageno (bestvalidslot b)"
            using bv(2,3) clean in_bank[OF bv(1)] unfolding selected_slot_ok_def
            by (simp add: Let_def c1s c1(4))
          with f1 absent show ?thesis unfolding y search_result_def by simp
        next
          case dirty: True
          obtain w c2 where w: "SlruInternalWritePage E c1 (bestvalidslot b) = (w, c2)"
            by (cases "SlruInternalWritePage E c1 (bestvalidslot b)")
          note f2 = slru_frame_trans[OF f1 SlruInternalWritePage_frame[OF w]]
          show ?thesis
          proof (cases w)
            case (Inl e)
            with body None scan rNone False dirty w have y: "y = (Inl e, c2)"
              by (simp add: c1_def)
            from SlruInternalWritePage_write_failed[OF w[unfolded Inl]] f2
            show ?thesis unfolding y search_result_def by simp
          next
            case (Inr u)
            with body None scan rNone False dirty w have "rec E c2 pageno = Some y"
              by (simp add: c1_def)
            from IH[OF this] f2 show ?thesis by (rule search_result_frame[rotated])
          qed
        qed
      qed
    qed
  qed
qed

subsection \<open>The latest page stays in its slot\<close>

lemma keeps_latest_refl: "keeps_latest ctl ctl"
  by (simp add: keeps_latest_def)

lemma keeps_latest_trans: "keeps_latest a b \<Longrightarrow> keeps_latest b c \<Longrightarrow> keeps_latest a c"
  by (simp add: keeps_latest_def)

lemma slru_frame_keeps_latest:
  assumes "slru_frame ctl ctl'"
  shows "keeps_latest ctl ctl'"
proof -
  have pn: "page_number (shared ctl') = page_number (shared ctl)"
    "latest_page_number (shared ctl') = latest_page_number (shared ctl)"
    using assms by (simp_all add: slru_frame_def)
  have "\<And>t. page_status (shared ctl) t = SLRU_PAGE_VALID \<Longrightarrow>
     page_status (shared ctl') t = SLRU_PAGE_VALID"
    by (rule slru_frame_valid[OF assms])
  then show ?thesis unfolding keeps_latest_def pn by blast
qed

lemma SlruRecentlyUsed_fields:
  "page_status (SlruRecentlyUsed sh s) = page_status sh"
  "page_number (SlruRecentlyUsed sh s) = page_number sh"
  "page_dirty (SlruRecentlyUsed sh s) = page_dirty sh"
  "page_buffer (SlruRecentlyUsed sh s) = page_buffer sh"
  "latest_page_number (SlruRecentlyUsed sh s) = latest_page_number sh"
  "num_slots (SlruRecentlyUsed sh s) = num_slots sh"
  by (simp_all add: SlruRecentlyUsed_def Let_def)

lemma SlruPhysicalReadPage_fields:
  assumes "SlruPhysicalReadPage E ctl pageno slotno = (r, ctl')"
  shows "page_status (shared ctl') = page_status (shared ctl)"
    "page_number (shared ctl') = page_number (shared ctl)"
    "page_dirty (shared ctl') = page_dirty (shared ctl)"
    "latest_page_number (shared ctl') = latest_page_number (shared ctl)"
    "nbanks ctl' = nbanks ctl" "Dir ctl' = Dir ctl" "PagePrecedes ctl' = PagePrecedes ctl"
    "t \<noteq> slotno \<Longrightarrow> page_buffer (shared ctl') t = page_buffer (shared ctl) t"
  using assms
  by (auto simp: SlruPhysicalReadPage_def Let_def split: option.splits if_splits)

text \<open>A slot chosen for a page it does not hold is not a valid slot of the latest page.\<close>

lemma selected_victim_not_latest:
  assumes "selected_slot_ok ctl pageno s"
    and "\<not> (page_status (shared ctl) s \<noteq> SLRU_PAGE_EMPTY \<and> page_number (shared ctl) s = pageno)"
    and "page_status (shared ctl) t = SLRU_PAGE_VALID"
    and "page_number (shared ctl) t = latest_page_number (shared ctl)"
  shows "t \<noteq> s"
  using assms by (auto simp: selected_slot_ok_def Let_def)

lemma SimpleLruZeroPage_result:
  assumes "SimpleLruZeroPage E ctl pageno = Some (Inr s, ctl')"
  shows "page_status (shared ctl') s = SLRU_PAGE_VALID \<and> page_number (shared ctl') s = pageno
     \<and> latest_page_number (shared ctl') = pageno \<and> page_dirty (shared ctl') s
     \<and> page_buffer (shared ctl') s = zero_page E"
  using assms
  by (auto simp: SimpleLruZeroPage_def Let_def SlruRecentlyUsed_fields
      split: option.splits prod.splits sum.splits)

subsection \<open>The invariant is kept, and zeroing and reading return\<close>

lemma pages_distinct_cong:
  "page_status (shared ctl') = page_status (shared ctl) \<Longrightarrow>
   page_number (shared ctl') = page_number (shared ctl) \<Longrightarrow>
     pages_distinct ctl' = pages_distinct ctl"
  by (simp add: pages_distinct_def)

lemma selected_slot_in_bank: "selected_slot_ok ctl pageno s \<Longrightarrow> s \<in> bank_slots ctl pageno"
  by (simp add: selected_slot_ok_def bank_slots_def Let_def)

text \<open>After the search, no slot of the bank but the one returned holds the page.\<close>

lemma selected_slot_others:
  assumes inv: "pages_distinct ctl" and ok: "selected_slot_ok ctl pageno s"
    and res: "(page_status (shared ctl) s \<noteq> SLRU_PAGE_EMPTY \<and> page_number (shared ctl) s = pageno)
                \<or> page_absent ctl pageno"
    and t: "t \<in> bank_slots ctl pageno" "t \<noteq> s"
  shows "page_status (shared ctl) t = SLRU_PAGE_EMPTY \<or> page_number (shared ctl) t \<noteq> pageno"
proof (cases "page_absent ctl pageno")
  case True
  with t(1) show ?thesis unfolding page_absent_def by blast
next
  case False
  with res have h: "page_status (shared ctl) s \<noteq> SLRU_PAGE_EMPTY"
    "page_number (shared ctl) s = pageno" by simp_all
  let ?b = "pageno smod nbanks ctl"
  from selected_slot_in_bank[OF ok] t(1)
  have "SlotGetBankNumber s = ?b" "SlotGetBankNumber t = ?b"
    by (simp_all add: bank_slots_def Let_def SlotGetBankNumber_bank)
  then have "SlotGetBankNumber t = SlotGetBankNumber s" by simp
  with inv t(2) h show ?thesis unfolding pages_distinct_def by metis
qed

lemma SlruSelectLRUPage_pages_distinct:
  "SlruSelectLRUPage E ctl pageno = Some y \<Longrightarrow> pages_distinct ctl \<Longrightarrow> pages_distinct (snd y)"
  using SlruSelectLRUPage_result[of E ctl pageno y] slru_frame_pages_distinct
  unfolding search_result_def by blast

lemma SlruSelectLRUPage_total:
  "pages_distinct ctl \<Longrightarrow> \<exists>y. SlruSelectLRUPage E ctl pageno = Some y"
  by (rule SlruSelectLRUPage_returns[OF pages_distinct_candidate])

lemma SimpleLruZeroPage_total:
  assumes "pages_distinct ctl"
  shows "\<exists>y. SimpleLruZeroPage E ctl pageno = Some y"
proof -
  from SlruSelectLRUPage_total[OF assms] obtain r c1 where
    "SlruSelectLRUPage E ctl pageno = Some (r, c1)" by fastforce
  then show ?thesis by (cases r) (simp_all add: SimpleLruZeroPage_def Let_def)
qed

lemma SimpleLruZeroPage_pages_distinct:
  assumes run: "SimpleLruZeroPage E ctl pageno = Some y" and inv: "pages_distinct ctl"
  shows "pages_distinct (snd y)"
proof -
  from run obtain r c1 where sel: "SlruSelectLRUPage E ctl pageno = Some (r, c1)"
    by (cases "SlruSelectLRUPage E ctl pageno") (auto simp: SimpleLruZeroPage_def)
  note sr = SlruSelectLRUPage_result[OF sel]
  from SlruSelectLRUPage_pages_distinct[OF sel inv] have inv1: "pages_distinct c1" by simp
  show ?thesis
  proof (cases r)
    case (Inl e)
    with run sel have "y = (Inl e, c1)" by (simp add: SimpleLruZeroPage_def)
    with inv1 show ?thesis by simp
  next
    case (Inr s)
    with sr have ok: "selected_slot_ok c1 pageno s"
      and res: "(page_status (shared c1) s \<noteq> SLRU_PAGE_EMPTY \<and> page_number (shared c1) s = pageno)
                \<or> page_absent c1 pageno"
      by (simp_all add: search_result_def)
    from run sel Inr
    have pn: "page_number (shared (snd y)) = (page_number (shared c1))(s := pageno)"
      and st: "page_status (shared (snd y)) = (page_status (shared c1))(s := SLRU_PAGE_VALID)"
      by (auto simp: SimpleLruZeroPage_def Let_def SlruRecentlyUsed_fields)
    show ?thesis
    proof (rule pages_distinct_put[OF inv1 selected_slot_in_bank[OF ok] _ pn])
      fix t
      assume "t \<in> bank_slots c1 pageno" "t \<noteq> s"
      then show "page_status (shared c1) t = SLRU_PAGE_EMPTY \<or> page_number (shared c1) t \<noteq> pageno"
        by (rule selected_slot_others[OF inv1 ok res])
    next
      fix t
      assume "t \<noteq> s" "page_status (shared (snd y)) t \<noteq> SLRU_PAGE_EMPTY"
      then show "page_status (shared c1) t \<noteq> SLRU_PAGE_EMPTY" unfolding st by simp
    qed
  qed
qed

lemma SimpleLruReadPage_result:
  assumes run: "SimpleLruReadPage E0 ctl0 pageno0 write_ok0 xid0 = Some y0"
  shows "keeps_latest ctl0 (snd y0) \<and> (pages_distinct ctl0 \<longrightarrow> pages_distinct (snd y0))"
proof (rule SimpleLruReadPage.raw_induct[where P = "\<lambda>E ctl pageno write_ok xid y.
          keeps_latest ctl (snd y) \<and> (pages_distinct ctl \<longrightarrow> pages_distinct (snd y))",
      OF _ run])
  fix rec :: "'a SlruEnv \<Rightarrow> 'a SlruCtlData \<Rightarrow> int \<Rightarrow> bool \<Rightarrow> 64 word
                \<Rightarrow> ((error + int) \<times> 'a SlruCtlData) option"
    and E ctl pageno write_ok xid y
  assume IH: "\<And>E ctl pageno write_ok xid y. rec E ctl pageno write_ok xid = Some y
                \<Longrightarrow> keeps_latest ctl (snd y) \<and> (pages_distinct ctl \<longrightarrow> pages_distinct (snd y))"
  assume hyps: "(case SlruSelectLRUPage E ctl pageno of
        None \<Rightarrow> None
      | Some (Inl e, ctl) \<Rightarrow> Some (Inl e, ctl)
      | Some (Inr slotno, ctl) \<Rightarrow>
          (let sh = shared ctl
           in if page_status sh slotno \<noteq> SLRU_PAGE_EMPTY \<and> page_number sh slotno = pageno
              then (if page_status sh slotno = SLRU_PAGE_READ_IN_PROGRESS
                       \<or> (page_status sh slotno = SLRU_PAGE_WRITE_IN_PROGRESS \<and> \<not> write_ok)
                    then rec E (SimpleLruWaitIO ctl slotno) pageno write_ok xid
                    else Some (Inr slotno, ctl\<lparr>shared := SlruRecentlyUsed sh slotno\<rparr>))
              else
                (let ctl = ctl\<lparr>shared := sh\<lparr>page_number := (page_number sh)(slotno := pageno),
                                              page_status := (page_status sh)
                                                 (slotno := SLRU_PAGE_READ_IN_PROGRESS),
                                              page_dirty := (page_dirty sh)(slotno := False)\<rparr>\<rparr>
                 in case SlruPhysicalReadPage E ctl pageno slotno of
                      (Inl cause, ctl) \<Rightarrow>
                        (let sh = shared ctl
                         in Some (Inl (SlruIOError cause pageno xid),
                                  ctl\<lparr>shared := sh\<lparr>page_status :=
                                          (page_status sh)(slotno := SLRU_PAGE_EMPTY)\<rparr>\<rparr>))
                    | (Inr _, ctl) \<Rightarrow>
                        (let sh = shared ctl;
                             sh = sh\<lparr>page_status := (page_status sh)(slotno := SLRU_PAGE_VALID)\<rparr>
                         in Some (Inr slotno, ctl\<lparr>shared := SlruRecentlyUsed sh slotno\<rparr>))))) = Some y"
  note body = hyps[unfolded Let_def]
  from body obtain r1 c1 where sel: "SlruSelectLRUPage E ctl pageno = Some (r1, c1)"
    by (cases "SlruSelectLRUPage E ctl pageno") auto
  note sr = SlruSelectLRUPage_result[OF sel]
  from sr have f1: "slru_frame ctl c1" by (simp add: search_result_def)
  from sr have ok: "\<And>slotno. r1 = Inr slotno \<Longrightarrow> selected_slot_ok c1 pageno slotno"
    and res: "\<And>slotno. r1 = Inr slotno \<Longrightarrow>
        (page_status (shared c1) slotno \<noteq> SLRU_PAGE_EMPTY \<and> page_number (shared c1) slotno = pageno)
        \<or> page_absent c1 pageno"
    by (simp_all add: search_result_def)
  note k1 = slru_frame_keeps_latest[OF f1]
  note d1 = slru_frame_pages_distinct[OF f1]
  show "keeps_latest ctl (snd y) \<and> (pages_distinct ctl \<longrightarrow> pages_distinct (snd y))"
  proof (cases r1)
    case (Inl e)
    with body sel have "y = (Inl e, c1)" by simp
    with k1 d1 show ?thesis by simp
  next
    case (Inr s)
    let ?sh = "shared c1"
    show ?thesis
    proof (cases "page_status ?sh s \<noteq> SLRU_PAGE_EMPTY \<and> page_number ?sh s = pageno")
      case found: True
      show ?thesis
      proof (cases "page_status ?sh s = SLRU_PAGE_READ_IN_PROGRESS
                       \<or> (page_status ?sh s = SLRU_PAGE_WRITE_IN_PROGRESS \<and> \<not> write_ok)")
        case True
        with body sel Inr found
        have "rec E (SimpleLruWaitIO c1 s) pageno write_ok xid = Some y" by simp
        from IH[OF this]
        have ih: "keeps_latest (SimpleLruWaitIO c1 s) (snd y)"
          "pages_distinct (SimpleLruWaitIO c1 s) \<Longrightarrow> pages_distinct (snd y)" by simp_all
        note f2 = slru_frame_trans[OF f1 SimpleLruWaitIO_frame[of c1 s]]
        have "keeps_latest ctl (snd y)"
          using slru_frame_keeps_latest[OF f2] ih(1) by (rule keeps_latest_trans)
        moreover have "pages_distinct ctl \<Longrightarrow> pages_distinct (snd y)"
          using slru_frame_pages_distinct[OF f2] ih(2) by blast
        ultimately show ?thesis by blast
      next
        case False
        with body sel Inr found
        have y: "y = (Inr s, c1\<lparr>shared := SlruRecentlyUsed ?sh s\<rparr>)" by simp
        then have "keeps_latest c1 (snd y)"
          by (simp add: keeps_latest_def SlruRecentlyUsed_fields)
        with k1 have "keeps_latest ctl (snd y)" by (rule keeps_latest_trans)
        moreover have "pages_distinct (snd y) = pages_distinct c1"
          unfolding y by (rule pages_distinct_cong) (simp_all add: SlruRecentlyUsed_fields)
        ultimately show ?thesis using d1 by blast
      qed
    next
      case notfound: False
      let ?c2 = "c1\<lparr>shared := ?sh\<lparr>page_number := (page_number ?sh)(s := pageno),
                                 page_status := (page_status ?sh)(s := SLRU_PAGE_READ_IN_PROGRESS),
                                 page_dirty := (page_dirty ?sh)(s := False)\<rparr>\<rparr>"
      obtain w c3 where rd: "SlruPhysicalReadPage E ?c2 pageno s = (w, c3)"
        by (cases "SlruPhysicalReadPage E ?c2 pageno s")
      note fl = SlruPhysicalReadPage_fields[OF rd]
      have lt: "latest_page_number (shared (snd y)) = latest_page_number ?sh"
        using body sel Inr notfound rd fl
        by (cases w) (auto simp: SlruRecentlyUsed_fields)
      have pn: "page_number (shared (snd y)) = (page_number ?sh)(s := pageno)"
        using body sel Inr notfound rd fl
        by (cases w) (auto simp: SlruRecentlyUsed_fields)
      have st: "\<And>t. t \<noteq> s \<Longrightarrow> page_status (shared (snd y)) t = page_status ?sh t"
        using body sel Inr notfound rd fl
        by (cases w) (auto simp: SlruRecentlyUsed_fields)
      have "keeps_latest c1 (snd y)"
        unfolding keeps_latest_def
      proof (intro conjI allI impI)
        show "latest_page_number (shared (snd y)) = latest_page_number ?sh" by (rule lt)
      next
        fix t
        assume t: "page_status ?sh t = SLRU_PAGE_VALID
                     \<and> page_number ?sh t = latest_page_number ?sh"
        have ts: "t \<noteq> s"
          using selected_victim_not_latest[OF ok[OF Inr] notfound] t by blast
        show "page_status (shared (snd y)) t = SLRU_PAGE_VALID"
          using st[OF ts] t by simp
        show "page_number (shared (snd y)) t = latest_page_number ?sh"
          using ts t unfolding pn by simp
      qed
      with k1 have "keeps_latest ctl (snd y)" by (rule keeps_latest_trans)
      moreover have "pages_distinct (snd y)" if inv: "pages_distinct ctl"
      proof (rule pages_distinct_put[OF d1[OF inv] selected_slot_in_bank[OF ok[OF Inr]] _ pn])
        fix t
        assume "t \<in> bank_slots c1 pageno" "t \<noteq> s"
        then show "page_status ?sh t = SLRU_PAGE_EMPTY \<or> page_number ?sh t \<noteq> pageno"
          by (rule selected_slot_others[OF d1[OF inv] ok[OF Inr] res[OF Inr]])
      next
        fix t
        assume "t \<noteq> s" "page_status (shared (snd y)) t \<noteq> SLRU_PAGE_EMPTY"
        then show "page_status ?sh t \<noteq> SLRU_PAGE_EMPTY" using st by simp
      qed
      ultimately show ?thesis by blast
    qed
  qed
qed


text \<open>
  \<^verbatim>\<open>SimpleLruReadPage\<close> returns: a round that does not return has waited for a slot of the
  bank that was doing I/O, and the search in between starts no I/O.
\<close>

lemma SimpleLruReadPage_total:
  assumes "pages_distinct ctl"
  shows "\<exists>y. SimpleLruReadPage E ctl pageno write_ok xid = Some y"
  using assms
proof (induction "card {s \<in> bank_slots ctl pageno. io_in_progress ctl s}" arbitrary: ctl
         rule: less_induct)
  case less
  note eq = SimpleLruReadPage.simps[of E ctl pageno write_ok xid, unfolded Let_def]
  from SlruSelectLRUPage_total[OF less.prems] obtain r1 c1 where
    sel: "SlruSelectLRUPage E ctl pageno = Some (r1, c1)" by fastforce
  note sr = SlruSelectLRUPage_result[OF sel]
  from sr have f1: "slru_frame ctl c1" by (simp add: search_result_def)
  show ?case
  proof (cases r1)
    case (Inl e)
    with sel show ?thesis by (subst eq) simp
  next
    case (Inr s)
    with sr have ok: "selected_slot_ok c1 pageno s" by (simp add: search_result_def)
    let ?sh = "shared c1"
    show ?thesis
    proof (cases "page_status ?sh s \<noteq> SLRU_PAGE_EMPTY \<and> page_number ?sh s = pageno")
      case found: True
      show ?thesis
      proof (cases "page_status ?sh s = SLRU_PAGE_READ_IN_PROGRESS
                       \<or> (page_status ?sh s = SLRU_PAGE_WRITE_IN_PROGRESS \<and> \<not> write_ok)")
        case True
        define c2 where "c2 = SimpleLruWaitIO c1 s"
        have f2: "slru_frame ctl c2"
          unfolding c2_def using f1 SimpleLruWaitIO_frame by (rule slru_frame_trans)
        have bank: "bank_slots c2 pageno = bank_slots ctl pageno" by (rule slru_frame_bank[OF f2])
        have sB: "s \<in> bank_slots ctl pageno"
          using selected_slot_in_bank[OF ok] slru_frame_bank[OF f1] by simp
        have io1: "io_in_progress c1 s" using True by (auto simp: io_in_progress_def)
        then have io: "io_in_progress ctl s" by (rule slru_frame_io[OF f1])
        have "\<not> io_in_progress c2 s"
          using io1 by (auto simp: c2_def SimpleLruWaitIO_def Let_def io_in_progress_def)
        then have "{t \<in> bank_slots ctl pageno. io_in_progress c2 t}
               \<subseteq> {t \<in> bank_slots ctl pageno. io_in_progress ctl t} - {s}"
          using slru_frame_io[OF f2] by auto
        moreover have "finite ({t \<in> bank_slots ctl pageno. io_in_progress ctl t} - {s})"
          using finite_bank_slots[of ctl pageno] by simp
        ultimately have "card {t \<in> bank_slots ctl pageno. io_in_progress c2 t}
               \<le> card ({t \<in> bank_slots ctl pageno. io_in_progress ctl t} - {s})"
          by (rule card_mono[rotated])
        also have "\<dots> < card {t \<in> bank_slots ctl pageno. io_in_progress ctl t}"
          using sB io finite_bank_slots[of ctl pageno] by (intro card_Diff1_less) simp_all
        finally have m: "card {t \<in> bank_slots c2 pageno. io_in_progress c2 t}
               < card {t \<in> bank_slots ctl pageno. io_in_progress ctl t}"
          unfolding bank .
        from less.hyps[OF m slru_frame_pages_distinct[OF f2 less.prems]]
        obtain y where "SimpleLruReadPage E c2 pageno write_ok xid = Some y" ..
        with sel Inr found True show ?thesis by (subst eq) (simp add: c2_def)
      next
        case False
        with sel Inr found show ?thesis by (subst eq) auto
      qed
    next
      case notfound: False
      let ?c2 = "c1\<lparr>shared := ?sh\<lparr>page_number := (page_number ?sh)(s := pageno),
                                 page_status := (page_status ?sh)(s := SLRU_PAGE_READ_IN_PROGRESS),
                                 page_dirty := (page_dirty ?sh)(s := False)\<rparr>\<rparr>"
      obtain w c3 where rd: "SlruPhysicalReadPage E ?c2 pageno s = (w, c3)"
        by (cases "SlruPhysicalReadPage E ?c2 pageno s")
      with sel Inr notfound show ?thesis by (subst eq) (cases w; auto)
    qed
  qed
qed

lemma read_pages_keeps_latest:
  "read_pages E ctl calls = Some ctl' \<Longrightarrow> keeps_latest ctl ctl'"
proof (induction calls arbitrary: ctl)
  case Nil
  then show ?case by (simp add: keeps_latest_refl)
next
  case (Cons c calls)
  obtain pageno write_ok xid where c: "c = (pageno, write_ok, xid)" by (cases c)
  from Cons.prems obtain r c1 where
    rd: "SimpleLruReadPage E ctl pageno write_ok xid = Some (r, c1)"
    and rest: "read_pages E c1 calls = Some ctl'"
    unfolding c by (auto split: option.splits)
  from SimpleLruReadPage_result[OF rd] Cons.IH[OF rest]
  show ?case by (auto intro: keeps_latest_trans)
qed

lemma read_pages_total:
  "pages_distinct ctl \<Longrightarrow> \<exists>ctl'. read_pages E ctl calls = Some ctl' \<and> pages_distinct ctl'"
proof (induction calls arbitrary: ctl)
  case Nil
  then show ?case by simp
next
  case (Cons c calls)
  obtain pageno write_ok xid where c: "c = (pageno, write_ok, xid)" by (cases c)
  from SimpleLruReadPage_total[OF Cons.prems] obtain r c1 where
    rd: "SimpleLruReadPage E ctl pageno write_ok xid = Some (r, c1)" by fastforce
  from SimpleLruReadPage_result[OF rd] Cons.prems have "pages_distinct c1" by simp
  from Cons.IH[OF this] rd show ?case unfolding c by simp
qed

text \<open>
  C6, on the cache run by one backend.  Under the invariant of the cache (no page is in
  two slots of a bank), \<^verbatim>\<open>SlruSelectLRUPage\<close> returns, and so do \<^verbatim>\<open>SimpleLruZeroPage\<close> and
  any sequence of \<^verbatim>\<open>SimpleLruReadPage\<close> calls, all keeping the invariant.  The only
  error of the search is a failed write of a dirty victim.  When the search returns a
  slot for \<open>pageno\<close>, the slot lies in the bank of \<open>pageno\<close> and, in the state returned,
  either holds \<open>pageno\<close> in a state other than empty, or is empty, or holds a valid and
  clean page; a slot chosen as victim (a slot returned while it holds another page)
  never holds the page \<^verbatim>\<open>latest_page_number\<close>, and the search leaves every page number,
  the latest page and every valid slot as they were.  Hence, once \<^verbatim>\<open>SimpleLruZeroPage\<close>
  has put a page into a slot, any sequence of \<^verbatim>\<open>SimpleLruReadPage\<close> calls, however long,
  leaves that page valid in that slot.
\<close>

theorem C6_victim_never_latest:
  "(pages_distinct ctl \<longrightarrow>
      (\<exists>r c. SlruSelectLRUPage E ctl pageno = Some (r, c) \<and> pages_distinct c)
      \<and> (\<exists>r c. SimpleLruZeroPage E ctl pageno = Some (r, c) \<and> pages_distinct c)
      \<and> (\<exists>c. read_pages E ctl calls = Some c \<and> pages_distinct c))
   \<and> (SlruSelectLRUPage E ctl pageno = Some (Inl e, ctl') \<longrightarrow> write_failed E e)
   \<and> (SlruSelectLRUPage E ctl pageno = Some (Inr slotno, ctl') \<longrightarrow>
      selected_slot_ok ctl' pageno slotno
      \<and> (page_status (shared ctl') slotno \<noteq> SLRU_PAGE_EMPTY
           \<and> page_number (shared ctl') slotno \<noteq> pageno
          \<longrightarrow> page_number (shared ctl') slotno \<noteq> latest_page_number (shared ctl'))
      \<and> page_number (shared ctl') = page_number (shared ctl)
      \<and> latest_page_number (shared ctl') = latest_page_number (shared ctl)
      \<and> (\<forall>t. page_status (shared ctl) t = SLRU_PAGE_VALID
              \<longrightarrow> page_status (shared ctl') t = SLRU_PAGE_VALID))
   \<and> (SimpleLruZeroPage E ctl pageno = Some (Inr slotno, ctl1)
        \<and> read_pages E ctl1 calls = Some ctl2 \<longrightarrow>
      page_status (shared ctl1) slotno = SLRU_PAGE_VALID
      \<and> page_number (shared ctl1) slotno = pageno
      \<and> latest_page_number (shared ctl1) = pageno
      \<and> page_status (shared ctl2) slotno = SLRU_PAGE_VALID
      \<and> page_number (shared ctl2) slotno = pageno
      \<and> latest_page_number (shared ctl2) = pageno)"
proof (intro conjI impI)
  assume inv: "pages_distinct ctl"
  from SlruSelectLRUPage_total[OF inv] obtain y where
    y: "SlruSelectLRUPage E ctl pageno = Some y" ..
  from SlruSelectLRUPage_pages_distinct[OF y inv] y
  show "\<exists>r c. SlruSelectLRUPage E ctl pageno = Some (r, c) \<and> pages_distinct c"
    by (cases y) auto
  from SimpleLruZeroPage_total[OF inv] obtain z where
    z: "SimpleLruZeroPage E ctl pageno = Some z" ..
  from SimpleLruZeroPage_pages_distinct[OF z inv] z
  show "\<exists>r c. SimpleLruZeroPage E ctl pageno = Some (r, c) \<and> pages_distinct c"
    by (cases z) auto
  show "\<exists>c. read_pages E ctl calls = Some c \<and> pages_distinct c"
    by (rule read_pages_total[OF inv])
next
  assume "SlruSelectLRUPage E ctl pageno = Some (Inl e, ctl')"
  from SlruSelectLRUPage_result[OF this] show "write_failed E e"
    by (simp add: search_result_def)
next
  assume sel: "SlruSelectLRUPage E ctl pageno = Some (Inr slotno, ctl')"
  from SlruSelectLRUPage_result[OF sel]
  have f: "slru_frame ctl ctl'" and ok: "selected_slot_ok ctl' pageno slotno"
    by (simp_all add: search_result_def)
  show "selected_slot_ok ctl' pageno slotno" by (rule ok)
  show "page_number (shared ctl') = page_number (shared ctl)"
    "latest_page_number (shared ctl') = latest_page_number (shared ctl)"
    using f by (simp_all add: slru_frame_def)
  show "\<forall>t. page_status (shared ctl) t = SLRU_PAGE_VALID
              \<longrightarrow> page_status (shared ctl') t = SLRU_PAGE_VALID"
    using slru_frame_valid[OF f] by blast
  assume "page_status (shared ctl') slotno \<noteq> SLRU_PAGE_EMPTY
           \<and> page_number (shared ctl') slotno \<noteq> pageno"
  with ok show "page_number (shared ctl') slotno \<noteq> latest_page_number (shared ctl')"
    by (auto simp: selected_slot_ok_def Let_def)
next
  assume a: "SimpleLruZeroPage E ctl pageno = Some (Inr slotno, ctl1)
        \<and> read_pages E ctl1 calls = Some ctl2"
  note z = SimpleLruZeroPage_result[OF a[THEN conjunct1]]
  note k = read_pages_keeps_latest[OF a[THEN conjunct2]]
  from z show "page_status (shared ctl1) slotno = SLRU_PAGE_VALID"
    "page_number (shared ctl1) slotno = pageno" "latest_page_number (shared ctl1) = pageno"
    by simp_all
  from z k show "page_status (shared ctl2) slotno = SLRU_PAGE_VALID"
    "page_number (shared ctl2) slotno = pageno" "latest_page_number (shared ctl2) = pageno"
    by (simp_all add: keeps_latest_def)
qed

lemma upto_0_15: "[0..15::int] = [0, 1, 2, 3, 4, 5, 6, 7, 8, 9, 10, 11, 12, 13, 14, 15]"
  by code_simp

lemmas example_eval = example_env_def example_full_bank_def SLRU_BANK_SIZE_def
  SLRU_BANK_BITSHIFT_def upto_0_15 Let_def lru_candidates_init_def int_less_def
  signed_modulo_int_def signed_divide_int_def SlruRecentlyUsed_def SlotGetBankNumber_def
  SlruPhysicalReadPage_def SlruInternalWritePage_def SlruPhysicalWritePage_def
  create_file_def write_dir_page_def write_file_page_def

lemma example_pages_distinct: "pages_distinct example_full_bank"
  by (simp add: pages_distinct_def example_full_bank_def)

lemma example_select:
  "\<exists>ctl'. SlruSelectLRUPage example_env example_full_bank 16 = Some (Inr 1, ctl')"
  apply (subst SlruSelectLRUPage.simps)
  apply (simp add: example_eval)
  apply (subst SlruSelectLRUPage.simps)
  apply (simp add: example_eval)
  done

lemma example_zero_then_reads:
  "\<exists>ctl1 ctl2. SimpleLruZeroPage example_env example_full_bank 16 = Some (Inr 1, ctl1)
     \<and> read_pages example_env ctl1 example_reads = Some ctl2"
  apply (simp add: SimpleLruZeroPage_def example_reads_def)
  apply (subst SlruSelectLRUPage.simps)
  apply (simp add: example_eval)
  apply (subst SlruSelectLRUPage.simps)
  apply (simp add: example_eval)
  apply ((subst SimpleLruReadPage.simps, subst SlruSelectLRUPage.simps, simp add: example_eval)+)
  done

theorem C6_victim_never_latest_witness:
  "\<exists>ctl' ctl1 ctl2.
     SlruSelectLRUPage example_env example_full_bank 16 = Some (Inr 1, ctl')
     \<and> selected_slot_ok ctl' 16 1
     \<and> page_number (shared ctl') 1 \<noteq> latest_page_number (shared ctl')
     \<and> SimpleLruZeroPage example_env example_full_bank 16 = Some (Inr 1, ctl1)
     \<and> read_pages example_env ctl1 example_reads = Some ctl2
     \<and> page_status (shared ctl2) 1 = SLRU_PAGE_VALID
     \<and> page_number (shared ctl2) 1 = 16
     \<and> latest_page_number (shared ctl2) = 16
     \<and> (\<exists>c. read_pages example_env example_full_bank example_reads = Some c)"
proof -
  from example_select obtain ctl' where
    s: "SlruSelectLRUPage example_env example_full_bank 16 = Some (Inr 1, ctl')" by blast
  from example_zero_then_reads obtain ctl1 ctl2 where
    z: "SimpleLruZeroPage example_env example_full_bank 16 = Some (Inr 1, ctl1)"
    and r: "read_pages example_env ctl1 example_reads = Some ctl2" by blast
  note t = C6_victim_never_latest[of example_full_bank example_env 16 example_reads
      "SlruIOError SLRU_WRITE_FAILED 1 0" ctl' 1 ctl1 ctl2]
  have pn: "page_number (shared ctl') 1 = 1"
    using t s by (simp add: example_full_bank_def)
  have st: "page_status (shared ctl') 1 = SLRU_PAGE_VALID"
    using t s by (simp add: example_full_bank_def)
  from t s z r pn st example_pages_distinct show ?thesis by auto
qed

subsection \<open>Truncation\<close>

lemma sdiv_mult_self: "0 < (n::int) \<Longrightarrow> (s * n) sdiv n = s"
  by (simp add: signed_divide_int_def sgn_mult abs_mult)
    (metis abs_sgn mult.commute sgn_mult_abs mult_sgn_abs)

lemma write_dir_page_keys:
  "fst ` set (write_dir_page z dir segno rpageno pg) = insert segno (fst ` set dir)"
proof (cases "map_of dir segno")
  case None
  then show ?thesis by (simp add: write_dir_page_def)
next
  case (Some fl)
  then have "segno \<in> fst ` set dir"
    using map_of_eq_None_iff[of dir segno] by simp
  moreover have "fst ` set (map (\<lambda>(s, f). if s = segno then (s, write_file_page z f rpageno pg)
                                 else (s, f)) dir) = fst ` set dir"
    by (force simp: image_iff split: prod.splits)
  ultimately show ?thesis using Some by (auto simp: write_dir_page_def)
qed

lemma dir_grows_refl: "dir_grows ctl ctl"
  by (simp add: dir_grows_def)

lemma dir_grows_trans: "dir_grows a b \<Longrightarrow> dir_grows b c \<Longrightarrow> dir_grows a c"
  by (auto simp: dir_grows_def)

lemma SimpleLruWaitIO_dir: "dir_grows ctl (SimpleLruWaitIO ctl slotno)"
  by (auto simp: dir_grows_def SimpleLruWaitIO_def Let_def)

lemma create_file_keys: "fst ` set (create_file dir segno) = insert segno (fst ` set dir)"
proof (cases "map_of dir segno")
  case None
  then show ?thesis by (simp add: create_file_def)
next
  case (Some fl)
  then have "segno \<in> fst ` set dir"
    using map_of_eq_None_iff[of dir segno] by simp
  with Some show ?thesis by (auto simp: create_file_def)
qed

lemma SlruPhysicalWritePage_dir:
  "SlruPhysicalWritePage E ctl pageno slotno = (r, ctl') \<Longrightarrow>
     fst ` set (Dir ctl) \<subseteq> fst ` set (Dir ctl')"
proof -
  assume a: "SlruPhysicalWritePage E ctl pageno slotno = (r, ctl')"
  let ?segno = "pageno sdiv SLRU_PAGES_PER_SEGMENT E"
  from a consider "Dir ctl' = Dir ctl"
    | "Dir ctl' = create_file (Dir ctl) ?segno"
    | "Dir ctl' = write_dir_page (zero_page E) (create_file (Dir ctl) ?segno) ?segno
                    (nat (pageno smod SLRU_PAGES_PER_SEGMENT E)) (page_buffer (shared ctl) slotno)"
    by (auto simp: SlruPhysicalWritePage_def Let_def split: if_splits)
  then show ?thesis
  proof cases
    case 1
    then show ?thesis by simp
  next
    case 2
    show ?thesis unfolding 2 create_file_keys by (rule subset_insertI)
  next
    case 3
    show ?thesis unfolding 3 write_dir_page_keys create_file_keys by blast
  qed
qed

lemma SlruInternalWritePage_dir:
  assumes "SlruInternalWritePage E ctl slotno = (r, ctl')"
  shows "dir_grows ctl ctl'"
proof -
  have a: "fst ` set (Dir c) \<subseteq> fst ` set (Dir ctl')"
    if run: "SlruInternalWritePage E c slotno = (r, ctl')"
      and nw: "page_status (shared c) slotno \<noteq> SLRU_PAGE_WRITE_IN_PROGRESS" for c
  proof (cases "page_dirty (shared c) slotno \<and> page_status (shared c) slotno = SLRU_PAGE_VALID")
    case False
    with run nw have "ctl' = c" by (auto simp: SlruInternalWritePage_def Let_def)
    then show ?thesis by simp
  next
    case True
    define c2 where "c2 = c\<lparr>shared := (shared c)\<lparr>page_status := (page_status (shared c))
                    (slotno := SLRU_PAGE_WRITE_IN_PROGRESS),
                  page_dirty := (page_dirty (shared c))(slotno := False)\<rparr>\<rparr>"
    obtain w c3 where w: "SlruPhysicalWritePage E c2 (page_number (shared c) slotno) slotno = (w, c3)"
      by (cases "SlruPhysicalWritePage E c2 (page_number (shared c) slotno) slotno")
    have "Dir ctl' = Dir c3"
      using run nw True w[unfolded c2_def]
      by (cases w) (auto simp: SlruInternalWritePage_def Let_def)
    with SlruPhysicalWritePage_dir[OF w] show ?thesis by (simp add: c2_def)
  qed
  have f: "slru_frame ctl ctl'" by (rule SlruInternalWritePage_frame[OF assms])
  have "fst ` set (Dir ctl) \<subseteq> fst ` set (Dir ctl')"
  proof (cases "page_status (shared ctl) slotno = SLRU_PAGE_WRITE_IN_PROGRESS")
    case True
    from a[OF assms[unfolded SlruInternalWritePage_wait[OF True]] SimpleLruWaitIO_not_writing]
    show ?thesis by (simp add: SimpleLruWaitIO_def Let_def split: if_splits)
  next
    case False
    from a[OF assms False] show ?thesis .
  qed
  with f show ?thesis by (simp add: dir_grows_def slru_frame_def)
qed

lemma SimpleLruTruncate_scan_dir:
  "SimpleLruTruncate_scan ctl cutoffPage slots = (r, ctl') \<Longrightarrow>
     dir_grows ctl ctl' \<and> Dir ctl' = Dir ctl"
proof (induction slots arbitrary: ctl)
  case Nil
  then show ?case by (simp add: dir_grows_refl)
next
  case (Cons slotno rest)
  let ?c1 = "ctl\<lparr>shared := (shared ctl)\<lparr>page_status :=
                 (page_status (shared ctl))(slotno := SLRU_PAGE_EMPTY)\<rparr>\<rparr>"
  have d1: "dir_grows ctl ?c1" "Dir ?c1 = Dir ctl" by (simp_all add: dir_grows_def)
  from Cons.prems consider
    (skip) "SimpleLruTruncate_scan ctl cutoffPage rest = (r, ctl')"
    | (drop) "SimpleLruTruncate_scan ?c1 cutoffPage rest = (r, ctl')"
    | (stop) "ctl' = ctl"
    by (auto simp: Let_def split: if_splits)
  then show ?case
  proof cases
    case skip
    from Cons.IH[OF this] show ?thesis .
  next
    case drop
    from Cons.IH[OF this] d1 show ?thesis by (auto intro: dir_grows_trans)
  next
    case stop
    then show ?thesis by (simp add: dir_grows_refl)
  qed
qed

text \<open>The directory scan of the truncation deletes exactly the deletable segments.\<close>

lemma SlruScanDirectory_loop_DeleteCutoff:
  assumes pps: "0 < SLRU_PAGES_PER_SEGMENT E"
  shows "SlruScanDirectory_loop E (\<lambda>ctl segpage. SlruScanDirCbDeleteCutoff E ctl segpage cutoffPage)
           ctl segs =
         (False, ctl\<lparr>Dir := filter (\<lambda>(s, f). \<not> (s \<in> set segs
                       \<and> SlruMayDeleteSegment E ctl (s * SLRU_PAGES_PER_SEGMENT E) cutoffPage))
                     (Dir ctl)\<rparr>)"
proof (induction segs arbitrary: ctl)
  case Nil
  then show ?case by simp
next
  case (Cons segno rest)
  have may: "SlruMayDeleteSegment E (SlruInternalDeleteSegment ctl s) p c = SlruMayDeleteSegment E ctl p c"
    for s p c by (simp add: SlruMayDeleteSegment_def SlruInternalDeleteSegment_def)
  have dird: "Dir (SlruInternalDeleteSegment ctl s) = filter (\<lambda>(s', f). s' \<noteq> s) (Dir ctl)"
    "SlruInternalDeleteSegment ctl s\<lparr>Dir := d\<rparr> = ctl\<lparr>Dir := d\<rparr>" for s d
    by (simp_all add: SlruInternalDeleteSegment_def)
  show ?case
  proof (cases "SlruMayDeleteSegment E ctl (segno * SLRU_PAGES_PER_SEGMENT E) cutoffPage")
    case True
    have cb: "SlruScanDirCbDeleteCutoff E ctl (segno * SLRU_PAGES_PER_SEGMENT E) cutoffPage
                = (False, SlruInternalDeleteSegment ctl segno)"
      using True by (simp add: SlruScanDirCbDeleteCutoff_def sdiv_mult_self[OF pps])
    have "filter (\<lambda>(s, f). \<not> (s \<in> set rest \<and> SlruMayDeleteSegment E ctl (s * SLRU_PAGES_PER_SEGMENT E) cutoffPage))
            (filter (\<lambda>(s, f). s \<noteq> segno) (Dir ctl))
        = filter (\<lambda>(s, f). \<not> (s \<in> set (segno # rest)
                       \<and> SlruMayDeleteSegment E ctl (s * SLRU_PAGES_PER_SEGMENT E) cutoffPage)) (Dir ctl)"
      using True by (auto intro!: filter_cong)
    then show ?thesis
      unfolding SlruScanDirectory_loop.simps Let_def cb prod.case bool.case Cons.IH may dird
      by simp
  next
    case False
    have cb: "SlruScanDirCbDeleteCutoff E ctl (segno * SLRU_PAGES_PER_SEGMENT E) cutoffPage
                = (False, ctl)"
      using False by (simp add: SlruScanDirCbDeleteCutoff_def)
    have "filter (\<lambda>(s, f). \<not> (s \<in> set rest \<and> SlruMayDeleteSegment E ctl (s * SLRU_PAGES_PER_SEGMENT E) cutoffPage))
            (Dir ctl)
        = filter (\<lambda>(s, f). \<not> (s \<in> set (segno # rest)
                       \<and> SlruMayDeleteSegment E ctl (s * SLRU_PAGES_PER_SEGMENT E) cutoffPage)) (Dir ctl)"
      using False by (auto intro!: filter_cong)
    then show ?thesis
      unfolding SlruScanDirectory_loop.simps Let_def cb prod.case bool.case Cons.IH by simp
  qed
qed

lemma SlruMayDeleteSegment_cong:
  "PagePrecedes ctl' = PagePrecedes ctl \<Longrightarrow>
     SlruMayDeleteSegment E ctl' p c = SlruMayDeleteSegment E ctl p c"
  by (simp add: SlruMayDeleteSegment_def)

lemma truncate_outcome_step:
  assumes g: "dir_grows ctl c1" and o: "truncate_outcome E c1 cutoffPage y"
    and nr: "\<not> PagePrecedes ctl (latest_page_number (shared ctl)) cutoffPage"
  shows "truncate_outcome E ctl cutoffPage y"
proof -
  have pp: "PagePrecedes c1 = PagePrecedes ctl"
    and lt: "latest_page_number (shared c1) = latest_page_number (shared ctl)"
    and sub: "fst ` set (Dir ctl) \<subseteq> fst ` set (Dir c1)"
    using g by (simp_all add: dir_grows_def)
  note may = SlruMayDeleteSegment_cong[OF pp]
  from o have o1: "PagePrecedes (snd y) = PagePrecedes c1"
    and o2: "\<And>segno. segno \<in> fst ` set (Dir c1) \<Longrightarrow> segno \<notin> fst ` set (Dir (snd y))
            \<Longrightarrow> SlruMayDeleteSegment E c1 (segno * SLRU_PAGES_PER_SEGMENT E) cutoffPage"
    and o3: "\<And>e. fst y = Inl e \<Longrightarrow> fst ` set (Dir c1) \<subseteq> fst ` set (Dir (snd y))"
    and o4: "\<And>segno. fst y = Inr [] \<Longrightarrow>
               SlruMayDeleteSegment E c1 (segno * SLRU_PAGES_PER_SEGMENT E) cutoffPage
               \<Longrightarrow> segno \<notin> fst ` set (Dir (snd y))"
    and o5: "\<And>msgs. fst y = Inr msgs \<Longrightarrow>
            (if PagePrecedes c1 (latest_page_number (shared c1)) cutoffPage
             then msgs = [LOG_apparent_wraparound] \<and> snd y = c1 else msgs = [])"
    unfolding truncate_outcome_def by blast+
  show ?thesis
    unfolding truncate_outcome_def
  proof (intro conjI allI impI)
    show "PagePrecedes (snd y) = PagePrecedes ctl" using o1 pp by simp
  next
    fix segno
    assume a: "segno \<in> fst ` set (Dir ctl) \<and> segno \<notin> fst ` set (Dir (snd y))"
    with sub have "segno \<in> fst ` set (Dir c1)" by blast
    from o2[OF this] a show "SlruMayDeleteSegment E ctl (segno * SLRU_PAGES_PER_SEGMENT E) cutoffPage"
      by (simp add: may)
  next
    fix e
    assume "fst y = Inl e"
    from o3[OF this] sub show "fst ` set (Dir ctl) \<subseteq> fst ` set (Dir (snd y))" by blast
  next
    fix segno
    assume "fst y = Inr []"
      and "SlruMayDeleteSegment E ctl (segno * SLRU_PAGES_PER_SEGMENT E) cutoffPage"
    then show "segno \<notin> fst ` set (Dir (snd y))" using o4[of segno] by (simp add: may)
  next
    fix msgs
    assume "fst y = Inr msgs"
    from o5[OF this] nr
    show "if PagePrecedes ctl (latest_page_number (shared ctl)) cutoffPage
             then msgs = [LOG_apparent_wraparound] \<and> snd y = ctl else msgs = []"
      by (simp add: pp lt)
  qed
qed

lemma SimpleLruTruncate_outcome:
  assumes pps: "0 < SLRU_PAGES_PER_SEGMENT E0"
    and run: "SimpleLruTruncate E0 ctl0 cutoffPage0 = Some y0"
  shows "truncate_outcome E0 ctl0 cutoffPage0 y0"
proof -
  have "0 < SLRU_PAGES_PER_SEGMENT E0 \<longrightarrow> truncate_outcome E0 ctl0 cutoffPage0 y0"
  proof (rule SimpleLruTruncate.raw_induct[where P = "\<lambda>E ctl cutoffPage y.
          0 < SLRU_PAGES_PER_SEGMENT E \<longrightarrow> truncate_outcome E ctl cutoffPage y", OF _ run])
    fix rec :: "'a SlruEnv \<Rightarrow> 'a SlruCtlData \<Rightarrow> int
                  \<Rightarrow> ((error + string list) \<times> 'a SlruCtlData) option"
      and E ctl cutoffPage y
    assume IH: "\<And>E ctl cutoffPage y. rec E ctl cutoffPage = Some y
                  \<Longrightarrow> 0 < SLRU_PAGES_PER_SEGMENT E \<longrightarrow> truncate_outcome E ctl cutoffPage y"
    assume body: "(if PagePrecedes ctl (latest_page_number (shared ctl)) cutoffPage
      then Some (Inr [LOG_apparent_wraparound], ctl)
      else (case SimpleLruTruncate_scan ctl cutoffPage [0..num_slots (shared ctl) - 1] of
              (Some slotno, ctl) \<Rightarrow>
                if page_status (shared ctl) slotno = SLRU_PAGE_VALID
                then (case SlruInternalWritePage E ctl slotno of
                        (Inl e, ctl) \<Rightarrow> Some (Inl e, ctl)
                      | (Inr _, ctl) \<Rightarrow> rec E ctl cutoffPage)
                else rec E (SimpleLruWaitIO ctl slotno) cutoffPage
            | (None, ctl) \<Rightarrow>
                Some (Inr [], snd (SlruScanDirectory E ctl
                                     (\<lambda>ctl segpage. SlruScanDirCbDeleteCutoff E ctl segpage cutoffPage))))) = Some y"
    show "0 < SLRU_PAGES_PER_SEGMENT E \<longrightarrow> truncate_outcome E ctl cutoffPage y"
    proof
      assume pps: "0 < SLRU_PAGES_PER_SEGMENT E"
      show "truncate_outcome E ctl cutoffPage y"
      proof (cases "PagePrecedes ctl (latest_page_number (shared ctl)) cutoffPage")
        case True
        with body have "y = (Inr [LOG_apparent_wraparound], ctl)" by simp
        then show ?thesis using True by (simp add: truncate_outcome_def)
      next
        case nr: False
        obtain r c1 where sc:
          "SimpleLruTruncate_scan ctl cutoffPage [0..num_slots (shared ctl) - 1] = (r, c1)"
          by (cases "SimpleLruTruncate_scan ctl cutoffPage [0..num_slots (shared ctl) - 1]")
        from SimpleLruTruncate_scan_dir[OF sc]
        have g1: "dir_grows ctl c1" and d1: "Dir c1 = Dir ctl" by simp_all
        show ?thesis
        proof (cases r)
          case None
          let ?D = "filter (\<lambda>(s, f). \<not> (s \<in> set (map fst (Dir c1))
                       \<and> SlruMayDeleteSegment E c1 (s * SLRU_PAGES_PER_SEGMENT E) cutoffPage))
                     (Dir c1)"
          from body nr sc None have y: "y = (Inr [], c1\<lparr>Dir := ?D\<rparr>)"
            by (simp add: SlruScanDirectory_def SlruScanDirectory_loop_DeleteCutoff[OF pps])
          have keys: "fst ` set ?D = {s \<in> fst ` set (Dir c1).
                        \<not> SlruMayDeleteSegment E c1 (s * SLRU_PAGES_PER_SEGMENT E) cutoffPage}"
            by (auto simp: image_iff)
          have "truncate_outcome E c1 cutoffPage y"
            unfolding truncate_outcome_def y using nr g1 keys
            by (simp add: dir_grows_def)
          from truncate_outcome_step[OF g1 this nr] show ?thesis .
        next
          case (Some slotno)
          show ?thesis
          proof (cases "page_status (shared c1) slotno = SLRU_PAGE_VALID")
            case True
            obtain w c2 where w: "SlruInternalWritePage E c1 slotno = (w, c2)"
              by (cases "SlruInternalWritePage E c1 slotno")
            note g2 = dir_grows_trans[OF g1 SlruInternalWritePage_dir[OF w]]
            show ?thesis
            proof (cases w)
              case (Inl e)
              with body nr sc Some True w have y: "y = (Inl e, c2)" by simp
              show ?thesis unfolding truncate_outcome_def y using g2
                by (auto simp: dir_grows_def)
            next
              case (Inr u)
              with body nr sc Some True w have "rec E c2 cutoffPage = Some y" by simp
              from IH[OF this] pps have "truncate_outcome E c2 cutoffPage y" by simp
              from truncate_outcome_step[OF g2 this nr] show ?thesis .
            qed
          next
            case False
            with body nr sc Some have "rec E (SimpleLruWaitIO c1 slotno) cutoffPage = Some y"
              by simp
            from IH[OF this] pps
            have "truncate_outcome E (SimpleLruWaitIO c1 slotno) cutoffPage y" by simp
            from truncate_outcome_step[OF dir_grows_trans[OF g1 SimpleLruWaitIO_dir] this nr]
            show ?thesis .
          qed
        qed
      qed
    qed
  qed
  with pps show ?thesis by simp
qed

text \<open>
  The loop over the slots turns valid clean slots into empty ones and changes nothing
  else; the slot it stops at is a slot of the cache that is doing I/O or is valid and
  dirty.
\<close>

lemma SimpleLruTruncate_scan_effect:
  "SimpleLruTruncate_scan ctl cutoffPage slots = (r, ctl') \<Longrightarrow>
     num_slots (shared ctl') = num_slots (shared ctl)
     \<and> (\<forall>t. io_in_progress ctl' t = io_in_progress ctl t)
     \<and> (\<forall>t. needs_write ctl' t = needs_write ctl t)
     \<and> (\<forall>s. r = Some s \<longrightarrow> s \<in> set slots \<and> (io_in_progress ctl' s \<or> needs_write ctl' s))"
proof (induction slots arbitrary: ctl)
  case Nil
  then show ?case by simp
next
  case (Cons slotno rest)
  define c1 where "c1 = ctl\<lparr>shared := (shared ctl)\<lparr>page_status :=
                 (page_status (shared ctl))(slotno := SLRU_PAGE_EMPTY)\<rparr>\<rparr>"
  consider
    (skip) "SimpleLruTruncate_scan ctl cutoffPage rest = (r, ctl')"
    | (drop) "SimpleLruTruncate_scan c1 cutoffPage rest = (r, ctl')"
        "page_status (shared ctl) slotno = SLRU_PAGE_VALID" "\<not> page_dirty (shared ctl) slotno"
    | (stop) "ctl' = ctl" "r = Some slotno" "page_status (shared ctl) slotno \<noteq> SLRU_PAGE_EMPTY"
        "\<not> (page_status (shared ctl) slotno = SLRU_PAGE_VALID \<and> \<not> page_dirty (shared ctl) slotno)"
  proof (cases "page_status (shared ctl) slotno = SLRU_PAGE_EMPTY
                  \<or> \<not> PagePrecedes ctl (page_number (shared ctl) slotno) cutoffPage")
    case True
    with Cons.prems have "SimpleLruTruncate_scan ctl cutoffPage rest = (r, ctl')"
      by (auto simp: Let_def split: if_splits)
    then show ?thesis by (rule skip)
  next
    case a: False
    show ?thesis
    proof (cases "page_status (shared ctl) slotno = SLRU_PAGE_VALID
                    \<and> \<not> page_dirty (shared ctl) slotno")
      case True
      with a Cons.prems have "SimpleLruTruncate_scan c1 cutoffPage rest = (r, ctl')"
        by (simp add: Let_def c1_def)
      with True show ?thesis using drop by blast
    next
      case False
      with a Cons.prems have "ctl' = ctl" "r = Some slotno" by (auto simp: Let_def)
      with a False show ?thesis using stop by blast
    qed
  qed
  then show ?case
  proof cases
    case skip
    from Cons.IH[OF this] show ?thesis by auto
  next
    case drop
    have "\<And>t. io_in_progress c1 t = io_in_progress ctl t"
      "\<And>t. needs_write c1 t = needs_write ctl t"
      "num_slots (shared c1) = num_slots (shared ctl)"
      using drop(2,3) by (auto simp: c1_def io_in_progress_def needs_write_def)
    with Cons.IH[OF drop(1)] show ?thesis by auto
  next
    case stop
    have "io_in_progress ctl slotno \<or> needs_write ctl slotno"
      using stop(3,4) unfolding io_in_progress_def needs_write_def
      by (cases "page_status (shared ctl) slotno") auto
    with stop show ?thesis by simp
  qed
qed

text \<open>
  \<^verbatim>\<open>SimpleLruTruncate\<close> returns: every jump back to \<^verbatim>\<open>restart\<close> comes after a wait for a
  slot doing I/O or after the write of a dirty page.
\<close>

lemma SimpleLruTruncate_total: "\<exists>y. SimpleLruTruncate E ctl cutoffPage = Some y"
proof (induction "search_measure ctl (set [0..num_slots (shared ctl) - 1])" arbitrary: ctl
         rule: less_induct)
  case less
  let ?B = "set [0..num_slots (shared ctl) - 1]"
  note eq = SimpleLruTruncate.simps[of E ctl cutoffPage]
  show ?case
  proof (cases "PagePrecedes ctl (latest_page_number (shared ctl)) cutoffPage")
    case True
    then show ?thesis by (subst eq) simp
  next
    case nr: False
    obtain r c1 where sc:
      "SimpleLruTruncate_scan ctl cutoffPage [0..num_slots (shared ctl) - 1] = (r, c1)"
      by (cases "SimpleLruTruncate_scan ctl cutoffPage [0..num_slots (shared ctl) - 1]")
    from SimpleLruTruncate_scan_effect[OF sc]
    have ns: "num_slots (shared c1) = num_slots (shared ctl)"
      and io: "\<And>t. io_in_progress c1 t = io_in_progress ctl t"
      and nw: "\<And>t. needs_write c1 t = needs_write ctl t"
      and st: "\<And>s. r = Some s \<Longrightarrow> s \<in> ?B \<and> (io_in_progress c1 s \<or> needs_write c1 s)"
      by blast+
    have m1: "search_measure c1 ?B = search_measure ctl ?B"
      by (simp add: search_measure_def io nw)
    show ?thesis
    proof (cases r)
      case None
      with nr sc show ?thesis by (subst eq) simp
    next
      case (Some s)
      from st[OF Some] have sB: "s \<in> ?B" and busy: "io_in_progress c1 s \<or> needs_write c1 s"
        by simp_all
      show ?thesis
      proof (cases "page_status (shared c1) s = SLRU_PAGE_VALID")
        case True
        with busy have nws: "needs_write c1 s" by (auto simp: io_in_progress_def)
        obtain w c2 where w: "SlruInternalWritePage E c1 s = (w, c2)"
          by (cases "SlruInternalWritePage E c1 s")
        show ?thesis
        proof (cases w)
          case (Inl e)
          with nr sc Some True w show ?thesis by (subst eq) simp
        next
          case (Inr x)
          have "page_status (shared c1) s \<noteq> SLRU_PAGE_WRITE_IN_PROGRESS" using True by simp
          from SlruInternalWritePage_cases[OF w this] Inr nws
          have c2: "shared c2 = (shared c1)\<lparr>page_dirty := (page_dirty (shared c1))(s := False)\<rparr>"
            by (auto simp: needs_write_def)
          from search_measure_write[OF _ sB nws, of c2] c2
          have "search_measure c2 ?B < search_measure c1 ?B" by simp
          moreover have "num_slots (shared c2) = num_slots (shared ctl)" using c2 ns by simp
          ultimately have "search_measure c2 (set [0..num_slots (shared c2) - 1])
                             < search_measure ctl ?B" using m1 by simp
          from less.hyps[OF this] obtain y where "SimpleLruTruncate E c2 cutoffPage = Some y" ..
          with nr sc Some True w Inr show ?thesis by (subst eq) simp
        qed
      next
        case False
        with busy have ios: "io_in_progress c1 s" by (auto simp: needs_write_def)
        define c2 where "c2 = SimpleLruWaitIO c1 s"
        from search_measure_wait[OF _ sB ios]
        have "search_measure c2 ?B < search_measure c1 ?B" by (simp add: c2_def)
        moreover have "num_slots (shared c2) = num_slots (shared ctl)"
          using ns by (simp add: c2_def SimpleLruWaitIO_def Let_def)
        ultimately have "search_measure c2 (set [0..num_slots (shared c2) - 1])
                           < search_measure ctl ?B" using m1 by simp
        from less.hyps[OF this] obtain y where "SimpleLruTruncate E c2 cutoffPage = Some y" ..
        with nr sc Some False show ?thesis by (subst eq) (simp add: c2_def)
      qed
    qed
  qed
qed

subsection \<open>Segments under the circular page comparisons\<close>

lemma ring_arc:
  fixes x d L M :: int
  assumes "x < 2 * M" "M \<le> x" "M \<le> (x + L) mod (2 * M)" "0 \<le> d" "d \<le> L" "L < M"
  shows "M \<le> (x + d) mod (2 * M)"
proof (cases "x + L < 2 * M")
  case True
  with assms have "(x + d) mod (2 * M) = x + d" by (intro mod_pos_pos_trivial) auto
  with assms show ?thesis by simp
next
  case False
  with assms have "(x + L) mod (2 * M) = x + L - 2 * M"
    by (intro int_mod_pos_eq[where q = 1]) auto
  with assms show ?thesis by simp
qed

text \<open>On the ring of 64-bit numbers, an arc shorter than half the ring that starts and
  ends at negative numbers holds only negative numbers.\<close>

lemma sint_arc:
  fixes a :: "64 word"
  assumes "sint a < 0" "sint (a + word_of_int L) < 0" "0 \<le> d" "d \<le> L"
    "L < 9223372036854775808"
  shows "sint (a + word_of_int d) < 0"
proof -
  have u: "uint (word_of_int d :: 64 word) = d" "uint (word_of_int L :: 64 word) = L"
    using assms by (simp_all add: uint_word_of_int_eq take_bit_int_eq_self)
  have e: "uint (a + word_of_int d) = (uint a + d) mod (2 * 9223372036854775808)"
    "uint (a + word_of_int L) = (uint a + L) mod (2 * 9223372036854775808)"
    by (simp_all add: uint_word_ariths u)
  show ?thesis
    using assms(1,2) unfolding sint_neg_iff e
    by (rule ring_arc[OF uint_bounds64(2) _ _ assms(3,4,5)])
qed

text \<open>
  A page comparison of the shape the logs use: page numbers are scaled by the entries
  per page, and a page precedes another when its first entry precedes the first and the
  last entry of the other.  If the first and the last page of a range of pages precede
  a cutoff page, and the range spans less than half the ring of entries, every page of
  the range precedes the cutoff page.
\<close>

lemma scaled_precedes_segment:
  fixes N k :: "64 word"
  assumes f1: "sint ((word_of_int lo * N + k) - (word_of_int c * N + k)) < 0"
    and f2: "sint ((word_of_int lo * N + k) - (word_of_int c * N + k + N - 1)) < 0"
    and l1: "sint ((word_of_int hi * N + k) - (word_of_int c * N + k)) < 0"
    and l2: "sint ((word_of_int hi * N + k) - (word_of_int c * N + k + N - 1)) < 0"
    and p: "lo \<le> p" "p \<le> hi"
    and small: "(hi - lo) * uint N < 9223372036854775808"
  shows "sint ((word_of_int p * N + k) - (word_of_int c * N + k)) < 0
       \<and> sint ((word_of_int p * N + k) - (word_of_int c * N + k + N - 1)) < 0"
proof -
  have N: "word_of_int (uint N) = N" by simp
  have shift: "word_of_int q * N = word_of_int lo * N + word_of_int ((q - lo) * uint N)"
    for q :: int
  proof -
    have "(word_of_int ((q - lo) * uint N) :: 64 word) = word_of_int (q - lo) * N"
      by (simp only: of_int_mult N)
    then show ?thesis by (simp add: algebra_simps)
  qed
  have d: "0 \<le> (p - lo) * uint N" "(p - lo) * uint N \<le> (hi - lo) * uint N"
    using p by (simp_all add: mult_right_mono)
  define a1 where "a1 = (word_of_int lo * N + k) - (word_of_int c * N + k)"
  define a2 where "a2 = (word_of_int lo * N + k) - (word_of_int c * N + k + N - 1)"
  have e1: "(word_of_int q * N + k) - (word_of_int c * N + k)
              = a1 + word_of_int ((q - lo) * uint N)" for q :: int
    unfolding a1_def by (subst shift[of q]) simp
  have e2: "(word_of_int q * N + k) - (word_of_int c * N + k + N - 1)
              = a2 + word_of_int ((q - lo) * uint N)" for q :: int
    unfolding a2_def by (subst shift[of q]) simp
  have "sint (a1 + word_of_int ((p - lo) * uint N)) < 0"
    using f1 l1 unfolding e1[of hi] a1_def[symmetric]
    by (rule sint_arc[OF _ _ d small])
  moreover have "sint (a2 + word_of_int ((p - lo) * uint N)) < 0"
    using f2 l2 unfolding e2[of hi] a2_def[symmetric]
    by (rule sint_arc[OF _ _ d small])
  ultimately show ?thesis unfolding e1[of p] e2[of p] by simp
qed

lemma MultiXactOffsetPagePrecedes_segment:
  assumes "MultiXactOffsetPagePrecedes BLCKSZ F lo c"
    and "MultiXactOffsetPagePrecedes BLCKSZ F hi c"
    and "lo \<le> p" "p \<le> hi"
    and "(hi - lo) * int (MULTIXACT_OFFSETS_PER_PAGE BLCKSZ) < 9223372036854775808"
    and "MULTIXACT_OFFSETS_PER_PAGE BLCKSZ < 4294967296"
  shows "MultiXactOffsetPagePrecedes BLCKSZ F p c"
proof -
  let ?N = "word_of_nat (MULTIXACT_OFFSETS_PER_PAGE BLCKSZ) :: 64 word"
  have uN: "uint ?N = int (MULTIXACT_OFFSETS_PER_PAGE BLCKSZ)"
    using assms(6) by (simp add: uint_word_of_nat_small)
  from scaled_precedes_segment[where N = ?N and k = "F + 1" and lo = lo and hi = hi
      and c = c and p = p] assms
  show ?thesis
    unfolding MultiXactOffsetPagePrecedes_def MultiXactIdPrecedes_def Let_def uN by blast
qed

lemma MultiXactMemberPagePrecedes_segment:
  assumes "MultiXactMemberPagePrecedes BLCKSZ lo c"
    and "MultiXactMemberPagePrecedes BLCKSZ hi c"
    and "lo \<le> p" "p \<le> hi"
    and "(hi - lo) * int (MULTIXACT_MEMBERS_PER_PAGE BLCKSZ) < 9223372036854775808"
    and "MULTIXACT_MEMBERS_PER_PAGE BLCKSZ < 4294967296"
  shows "MultiXactMemberPagePrecedes BLCKSZ p c"
proof -
  let ?N = "word_of_nat (MULTIXACT_MEMBERS_PER_PAGE BLCKSZ) :: 64 word"
  have uN: "uint ?N = int (MULTIXACT_MEMBERS_PER_PAGE BLCKSZ)"
    using assms(6) by (simp add: uint_word_of_nat_small)
  from scaled_precedes_segment[where N = ?N and k = 0 and lo = lo and hi = hi
      and c = c and p = p] assms
  show ?thesis
    unfolding MultiXactMemberPagePrecedes_def MultiXactOffsetPrecedes_def Let_def uN by simp
qed

text \<open>
  C3, on the cache run by one backend, with a positive number of pages per segment.
  \<^verbatim>\<open>SimpleLruTruncate\<close> returns.  Called with a cutoff page that the latest page
  precedes, it returns at once, having logged the apparent-wraparound message and changed
  nothing.  Whenever a segment file that was in the directory before the call is missing
  after it, the truncation was not refused, and the first and the last page of the
  segment both precede the cutoff page under the log's \<^verbatim>\<open>PagePrecedes\<close>: a segment whose
  first or whose last page does not precede the cutoff is never deleted.  For the two
  multixact logs, whose segments span less than half the ring of entries, it follows
  that every page of a deleted segment precedes the cutoff page.  A call that raises an
  error has deleted nothing.  After a call that ran to its end,
  \<^verbatim>\<open>SimpleLruDoesPhysicalPageExist\<close> is false for every page whose segment has its first
  and last page before the cutoff.
\<close>

theorem C3_truncate_deletes_only_old_segments:
  assumes "0 < SLRU_PAGES_PER_SEGMENT E"
  shows "(\<exists>y. SimpleLruTruncate E ctl cutoffPage = Some y)
     \<and> (PagePrecedes ctl (latest_page_number (shared ctl)) cutoffPage \<longrightarrow>
            SimpleLruTruncate E ctl cutoffPage = Some (Inr [LOG_apparent_wraparound], ctl))
     \<and> (SimpleLruTruncate E ctl cutoffPage = Some (r, ctl') \<longrightarrow>
          (\<forall>segno. segno \<in> fst ` set (Dir ctl) \<and> segno \<notin> fst ` set (Dir ctl') \<longrightarrow>
              \<not> PagePrecedes ctl (latest_page_number (shared ctl)) cutoffPage
              \<and> PagePrecedes ctl (segno * SLRU_PAGES_PER_SEGMENT E) cutoffPage
              \<and> PagePrecedes ctl (segno * SLRU_PAGES_PER_SEGMENT E + SLRU_PAGES_PER_SEGMENT E - 1)
                   cutoffPage
              \<and> ((PagePrecedes ctl = MultiXactOffsetPagePrecedes BLCKSZ FirstMultiXactId
                     \<and> MULTIXACT_OFFSETS_PER_PAGE BLCKSZ < 4294967296
                     \<and> (SLRU_PAGES_PER_SEGMENT E - 1) * int (MULTIXACT_OFFSETS_PER_PAGE BLCKSZ)
                           < 9223372036854775808)
                  \<or> (PagePrecedes ctl = MultiXactMemberPagePrecedes BLCKSZ
                     \<and> MULTIXACT_MEMBERS_PER_PAGE BLCKSZ < 4294967296
                     \<and> (SLRU_PAGES_PER_SEGMENT E - 1) * int (MULTIXACT_MEMBERS_PER_PAGE BLCKSZ)
                           < 9223372036854775808)
                  \<longrightarrow> (\<forall>p. segno * SLRU_PAGES_PER_SEGMENT E \<le> p
                            \<and> p \<le> segno * SLRU_PAGES_PER_SEGMENT E + SLRU_PAGES_PER_SEGMENT E - 1
                          \<longrightarrow> PagePrecedes ctl p cutoffPage)))
          \<and> (\<forall>e. r = Inl e \<longrightarrow> fst ` set (Dir ctl) \<subseteq> fst ` set (Dir ctl'))
          \<and> (\<forall>msgs. r = Inr msgs \<longrightarrow>
                msgs = (if PagePrecedes ctl (latest_page_number (shared ctl)) cutoffPage
                        then [LOG_apparent_wraparound] else []))
          \<and> (r = Inr [] \<longrightarrow>
               (\<forall>pageno.
                    SlruMayDeleteSegment E ctl
                      ((pageno sdiv SLRU_PAGES_PER_SEGMENT E) * SLRU_PAGES_PER_SEGMENT E) cutoffPage
                    \<longrightarrow> SimpleLruDoesPhysicalPageExist E ctl' pageno = Inr False)))"
proof (intro conjI impI)
  show "\<exists>y. SimpleLruTruncate E ctl cutoffPage = Some y" by (rule SimpleLruTruncate_total)
next
  assume "PagePrecedes ctl (latest_page_number (shared ctl)) cutoffPage"
  then show "SimpleLruTruncate E ctl cutoffPage = Some (Inr [LOG_apparent_wraparound], ctl)"
    by (subst SimpleLruTruncate.simps) simp
next
  assume run: "SimpleLruTruncate E ctl cutoffPage = Some (r, ctl')"
  from SimpleLruTruncate_outcome[OF assms run]
  have o2: "\<And>segno. segno \<in> fst ` set (Dir ctl) \<Longrightarrow> segno \<notin> fst ` set (Dir ctl')
            \<Longrightarrow> SlruMayDeleteSegment E ctl (segno * SLRU_PAGES_PER_SEGMENT E) cutoffPage"
    and o3: "\<And>e. r = Inl e \<Longrightarrow> fst ` set (Dir ctl) \<subseteq> fst ` set (Dir ctl')"
    and o4: "\<And>segno. r = Inr [] \<Longrightarrow>
               SlruMayDeleteSegment E ctl (segno * SLRU_PAGES_PER_SEGMENT E) cutoffPage
               \<Longrightarrow> segno \<notin> fst ` set (Dir ctl')"
    and o5: "\<And>msgs. r = Inr msgs \<Longrightarrow>
            (if PagePrecedes ctl (latest_page_number (shared ctl)) cutoffPage
             then msgs = [LOG_apparent_wraparound] \<and> ctl' = ctl else msgs = [])"
    unfolding truncate_outcome_def fst_conv snd_conv by blast+
  show "\<forall>e. r = Inl e \<longrightarrow> fst ` set (Dir ctl) \<subseteq> fst ` set (Dir ctl')"
    using o3 by blast
  show "\<forall>msgs. r = Inr msgs \<longrightarrow>
                msgs = (if PagePrecedes ctl (latest_page_number (shared ctl)) cutoffPage
                        then [LOG_apparent_wraparound] else [])"
    using o5 by (auto split: if_splits)
  show "\<forall>segno. segno \<in> fst ` set (Dir ctl) \<and> segno \<notin> fst ` set (Dir ctl') \<longrightarrow>
              \<not> PagePrecedes ctl (latest_page_number (shared ctl)) cutoffPage
              \<and> PagePrecedes ctl (segno * SLRU_PAGES_PER_SEGMENT E) cutoffPage
              \<and> PagePrecedes ctl (segno * SLRU_PAGES_PER_SEGMENT E + SLRU_PAGES_PER_SEGMENT E - 1)
                   cutoffPage
              \<and> ((PagePrecedes ctl = MultiXactOffsetPagePrecedes BLCKSZ FirstMultiXactId
                     \<and> MULTIXACT_OFFSETS_PER_PAGE BLCKSZ < 4294967296
                     \<and> (SLRU_PAGES_PER_SEGMENT E - 1) * int (MULTIXACT_OFFSETS_PER_PAGE BLCKSZ)
                           < 9223372036854775808)
                  \<or> (PagePrecedes ctl = MultiXactMemberPagePrecedes BLCKSZ
                     \<and> MULTIXACT_MEMBERS_PER_PAGE BLCKSZ < 4294967296
                     \<and> (SLRU_PAGES_PER_SEGMENT E - 1) * int (MULTIXACT_MEMBERS_PER_PAGE BLCKSZ)
                           < 9223372036854775808)
                  \<longrightarrow> (\<forall>p. segno * SLRU_PAGES_PER_SEGMENT E \<le> p
                            \<and> p \<le> segno * SLRU_PAGES_PER_SEGMENT E + SLRU_PAGES_PER_SEGMENT E - 1
                          \<longrightarrow> PagePrecedes ctl p cutoffPage))"
  proof (intro allI impI)
    fix segno
    assume a: "segno \<in> fst ` set (Dir ctl) \<and> segno \<notin> fst ` set (Dir ctl')"
    let ?lo = "segno * SLRU_PAGES_PER_SEGMENT E"
    let ?hi = "segno * SLRU_PAGES_PER_SEGMENT E + SLRU_PAGES_PER_SEGMENT E - 1"
    from o2 a have may: "SlruMayDeleteSegment E ctl ?lo cutoffPage" by blast
    then have ends: "PagePrecedes ctl ?lo cutoffPage" "PagePrecedes ctl ?hi cutoffPage"
      by (simp_all add: SlruMayDeleteSegment_def Let_def)
    have len: "?hi - ?lo = SLRU_PAGES_PER_SEGMENT E - 1" by simp
    have nr: "\<not> PagePrecedes ctl (latest_page_number (shared ctl)) cutoffPage"
    proof
      assume "PagePrecedes ctl (latest_page_number (shared ctl)) cutoffPage"
      then have "SimpleLruTruncate E ctl cutoffPage = Some (Inr [LOG_apparent_wraparound], ctl)"
        by (subst SimpleLruTruncate.simps) simp
      with run have "ctl' = ctl" by simp
      with a show False by simp
    qed
    have all: "PagePrecedes ctl p cutoffPage"
      if c: "(PagePrecedes ctl = MultiXactOffsetPagePrecedes BLCKSZ FirstMultiXactId
                     \<and> MULTIXACT_OFFSETS_PER_PAGE BLCKSZ < 4294967296
                     \<and> (SLRU_PAGES_PER_SEGMENT E - 1) * int (MULTIXACT_OFFSETS_PER_PAGE BLCKSZ)
                           < 9223372036854775808)
                  \<or> (PagePrecedes ctl = MultiXactMemberPagePrecedes BLCKSZ
                     \<and> MULTIXACT_MEMBERS_PER_PAGE BLCKSZ < 4294967296
                     \<and> (SLRU_PAGES_PER_SEGMENT E - 1) * int (MULTIXACT_MEMBERS_PER_PAGE BLCKSZ)
                           < 9223372036854775808)"
        and p: "?lo \<le> p \<and> p \<le> ?hi" for p
      using c
    proof
      assume o: "PagePrecedes ctl = MultiXactOffsetPagePrecedes BLCKSZ FirstMultiXactId
                     \<and> MULTIXACT_OFFSETS_PER_PAGE BLCKSZ < 4294967296
                     \<and> (SLRU_PAGES_PER_SEGMENT E - 1) * int (MULTIXACT_OFFSETS_PER_PAGE BLCKSZ)
                           < 9223372036854775808"
      show ?thesis
        using MultiXactOffsetPagePrecedes_segment[of BLCKSZ FirstMultiXactId ?lo cutoffPage ?hi p]
          ends p o unfolding len by simp
    next
      assume o: "PagePrecedes ctl = MultiXactMemberPagePrecedes BLCKSZ
                     \<and> MULTIXACT_MEMBERS_PER_PAGE BLCKSZ < 4294967296
                     \<and> (SLRU_PAGES_PER_SEGMENT E - 1) * int (MULTIXACT_MEMBERS_PER_PAGE BLCKSZ)
                           < 9223372036854775808"
      show ?thesis
        using MultiXactMemberPagePrecedes_segment[of BLCKSZ ?lo cutoffPage ?hi p]
          ends p o unfolding len by simp
    qed
    from nr ends all
    show "\<not> PagePrecedes ctl (latest_page_number (shared ctl)) cutoffPage
              \<and> PagePrecedes ctl ?lo cutoffPage \<and> PagePrecedes ctl ?hi cutoffPage
              \<and> ((PagePrecedes ctl = MultiXactOffsetPagePrecedes BLCKSZ FirstMultiXactId
                     \<and> MULTIXACT_OFFSETS_PER_PAGE BLCKSZ < 4294967296
                     \<and> (SLRU_PAGES_PER_SEGMENT E - 1) * int (MULTIXACT_OFFSETS_PER_PAGE BLCKSZ)
                           < 9223372036854775808)
                  \<or> (PagePrecedes ctl = MultiXactMemberPagePrecedes BLCKSZ
                     \<and> MULTIXACT_MEMBERS_PER_PAGE BLCKSZ < 4294967296
                     \<and> (SLRU_PAGES_PER_SEGMENT E - 1) * int (MULTIXACT_MEMBERS_PER_PAGE BLCKSZ)
                           < 9223372036854775808)
                  \<longrightarrow> (\<forall>p. ?lo \<le> p \<and> p \<le> ?hi \<longrightarrow> PagePrecedes ctl p cutoffPage))"
      by blast
  qed
  assume r: "r = Inr []"
  show "\<forall>pageno.
          SlruMayDeleteSegment E ctl
            ((pageno sdiv SLRU_PAGES_PER_SEGMENT E) * SLRU_PAGES_PER_SEGMENT E) cutoffPage
          \<longrightarrow> SimpleLruDoesPhysicalPageExist E ctl' pageno = Inr False"
  proof (intro allI impI)
    fix pageno
    assume "SlruMayDeleteSegment E ctl
            ((pageno sdiv SLRU_PAGES_PER_SEGMENT E) * SLRU_PAGES_PER_SEGMENT E) cutoffPage"
    from o4[OF r this] have "pageno sdiv SLRU_PAGES_PER_SEGMENT E \<notin> fst ` set (Dir ctl')" .
    then have "map_of (Dir ctl') (pageno sdiv SLRU_PAGES_PER_SEGMENT E) = None"
      by (simp add: map_of_eq_None_iff)
    then show "SimpleLruDoesPhysicalPageExist E ctl' pageno = Inr False"
      by (simp add: SimpleLruDoesPhysicalPageExist_def Let_def)
  qed
qed

lemmas example_truncate_eval = example_truncate_ctl_def example_eval
  MultiXactOffsetPagePrecedes_def MultiXactIdPrecedes_def MULTIXACT_OFFSETS_PER_PAGE_def
  sizeof_MultiXactOffset_def SlruScanDirectory_def SlruScanDirCbDeleteCutoff_def
  SlruMayDeleteSegment_def SlruInternalDeleteSegment_def

lemma example_truncate:
  "\<exists>ctl'. SimpleLruTruncate example_env example_truncate_ctl 40 = Some (Inr [], ctl')
      \<and> map fst (Dir ctl') = [1, 2]"
  apply (subst SimpleLruTruncate.simps)
  apply (simp add: example_truncate_eval)
  apply (subst SimpleLruTruncate.simps)
  apply (simp add: example_truncate_eval)
  done

theorem C3_truncate_deletes_only_old_segments_witness:
  "\<exists>ctl'. SimpleLruTruncate example_env example_truncate_ctl 40 = Some (Inr [], ctl')
      \<and> map fst (Dir ctl') = [1, 2]
      \<and> MultiXactOffsetPagePrecedes 8192 1 5 40
      \<and> SimpleLruDoesPhysicalPageExist example_env ctl' 5 = Inr False
      \<and> SimpleLruTruncate example_env example_truncate_ctl 80
          = Some (Inr [LOG_apparent_wraparound], example_truncate_ctl)"
proof -
  from example_truncate obtain ctl' where
    run: "SimpleLruTruncate example_env example_truncate_ctl 40 = Some (Inr [], ctl')"
    and dir: "map fst (Dir ctl') = [1, 2]" by auto
  have pps: "0 < SLRU_PAGES_PER_SEGMENT example_env" by (simp add: example_env_def)
  note t = C3_truncate_deletes_only_old_segments[OF pps, of example_truncate_ctl _ "Inr []" ctl'
      8192 1]
  have keys: "fst ` set (Dir ctl') = {1, 2}"
    using dir by (metis list.set(1) list.set(2) list.set_map)
  have gone: "(0::int) \<in> fst ` set (Dir example_truncate_ctl) \<and> 0 \<notin> fst ` set (Dir ctl')"
    unfolding keys by (simp add: example_truncate_ctl_def)
  have pp: "PagePrecedes example_truncate_ctl = MultiXactOffsetPagePrecedes 8192 1"
    by (simp add: example_truncate_ctl_def)
  have sizes: "MULTIXACT_OFFSETS_PER_PAGE 8192 < 4294967296"
    "(SLRU_PAGES_PER_SEGMENT example_env - 1) * int (MULTIXACT_OFFSETS_PER_PAGE 8192)
       < 9223372036854775808"
    by (simp_all add: MULTIXACT_OFFSETS_PER_PAGE_def sizeof_MultiXactOffset_def example_env_def)
  from t[of 40] run gone pp sizes
  have "\<forall>p. 0 * SLRU_PAGES_PER_SEGMENT example_env \<le> p
           \<and> p \<le> 0 * SLRU_PAGES_PER_SEGMENT example_env + SLRU_PAGES_PER_SEGMENT example_env - 1
          \<longrightarrow> PagePrecedes example_truncate_ctl p 40" by blast
  then have a: "MultiXactOffsetPagePrecedes 8192 1 5 40"
    unfolding pp by (simp add: example_env_def)
  have "SlruMayDeleteSegment example_env example_truncate_ctl
          ((5 sdiv SLRU_PAGES_PER_SEGMENT example_env) * SLRU_PAGES_PER_SEGMENT example_env) 40"
    by (simp add: example_truncate_eval)
  with t[of 40] run
  have b: "SimpleLruDoesPhysicalPageExist example_env ctl' 5 = Inr False" by blast
  have "PagePrecedes example_truncate_ctl (latest_page_number (shared example_truncate_ctl)) 80"
    by (simp add: example_truncate_eval)
  with t[of 80]
  have c: "SimpleLruTruncate example_env example_truncate_ctl 80
          = Some (Inr [LOG_apparent_wraparound], example_truncate_ctl)" by blast
  from run dir a b c show ?thesis by (intro exI[of _ ctl'] conjI)
qed

end
